theory Spec2Isabelle
  imports Complex_Main "HOL-Library.Word"
begin

section \<open>Utilization from two CPU time samples (log.c)\<close>

text \<open>
  The struct \<^verbatim>\<open>CpuTime\<close> of log.c: ten \<^verbatim>\<open>unsigned long long\<close> tick counters and the
  \<^verbatim>\<open>int successfully_parsed\<close> flag. The counters are 64-bit words, so \<open>+\<close> and \<open>-\<close>
  wrap around as the C operators do.
\<close>

type_synonym u64 = "64 word"

record CpuTime =
  user :: u64
  nice :: u64
  system :: u64
  idle :: u64
  iowait :: u64
  irq :: u64
  softirq :: u64
  steal :: u64
  guest :: u64
  guest_nice :: u64
  successfully_parsed :: int

text \<open>
  The locals \<^verbatim>\<open>prev_idle\<close>/\<^verbatim>\<open>curr_idle\<close>, \<^verbatim>\<open>prev_non_idle\<close>/\<^verbatim>\<open>curr_non_idle\<close> and
  \<^verbatim>\<open>prev_total\<close>/\<^verbatim>\<open>curr_total\<close> of \<^verbatim>\<open>calculate_core_utilization\<close>, as functions of the
  sample they are computed from. The guest fields do not enter.
\<close>

definition idle_of :: "CpuTime \<Rightarrow> u64" where
  "idle_of t = idle t + iowait t"

definition non_idle_of :: "CpuTime \<Rightarrow> u64" where
  "non_idle_of t = user t + nice t + system t + irq t + softirq t + steal t"

definition total_of :: "CpuTime \<Rightarrow> u64" where
  "total_of t = idle_of t + non_idle_of t"

text \<open>
  The return value \<^verbatim>\<open>-1.0\<close> of \<^verbatim>\<open>calculate_core_utilization\<close>, which the callers print
  as \<^verbatim>\<open>N/A\<close>.
\<close>

definition unavailable :: rat where
  "unavailable = - 1"

text \<open>
  \<^verbatim>\<open>calculate_core_utilization\<close>. The differences \<^verbatim>\<open>total_diff\<close>, \<^verbatim>\<open>idle_diff\<close> and
  \<^verbatim>\<open>total_diff - idle_diff\<close> are unsigned 64-bit subtractions. The \<^verbatim>\<open>double\<close> result is
  modelled by the exact rational value of the expression: the conversions
  \<^verbatim>\<open>(double)\<close> of the two unsigned values, the product and the quotient are exact here,
  where the C operations round to 53 bits. The constants \<^verbatim>\<open>-1.0\<close>, \<^verbatim>\<open>0.0\<close> and
  \<^verbatim>\<open>100.0\<close> are exact in both.
\<close>

definition calculate_core_utilization :: "CpuTime \<Rightarrow> CpuTime \<Rightarrow> rat" where
  "calculate_core_utilization prev_times curr_times =
    (if successfully_parsed prev_times = 0 \<or> successfully_parsed curr_times = 0 then - 1
     else
       let prev_idle = idle_of prev_times;
           curr_idle = idle_of curr_times;
           prev_total = total_of prev_times;
           curr_total = total_of curr_times;
           total_diff = curr_total - prev_total;
           idle_diff = curr_idle - prev_idle
       in if total_diff = 0 then 0
          else if curr_total < prev_total \<or> curr_idle < prev_idle then 0
          else
            let util = of_nat (unat (total_diff - idle_diff)) * 100 / of_nat (unat total_diff)
            in if util < 0 then 0 else if util > 100 then 100 else util)"

text \<open>
  The formula of the specification, in its own words and over the integers:
  idle-like = idle + iowait, non-idle = user + nice + system + irq + softirq + steal,
  total = idle-like + non-idle, the deltas taken between the two samples, and the
  percentage 100 * (total delta - idle delta) / total delta clamped to [0, 100].
\<close>

definition spec_idle_like :: "CpuTime \<Rightarrow> int" where
  "spec_idle_like t = uint (idle t) + uint (iowait t)"

definition spec_non_idle :: "CpuTime \<Rightarrow> int" where
  "spec_non_idle t =
     uint (user t) + uint (nice t) + uint (system t) + uint (irq t) + uint (softirq t)
       + uint (steal t)"

definition spec_total :: "CpuTime \<Rightarrow> int" where
  "spec_total t = spec_idle_like t + spec_non_idle t"

definition clamp_percent :: "rat \<Rightarrow> rat" where
  "clamp_percent x = (if x < 0 then 0 else if x > 100 then 100 else x)"

definition spec_utilization :: "CpuTime \<Rightarrow> CpuTime \<Rightarrow> rat" where
  "spec_utilization p c =
     (let total_delta = spec_total c - spec_total p;
          idle_delta = spec_idle_like c - spec_idle_like p
      in clamp_percent (100 * of_int (total_delta - idle_delta) / of_int total_delta))"

text \<open>A sample with the given user and idle ticks, every other counter zero, parsed.\<close>

definition sample_user_idle :: "u64 \<Rightarrow> u64 \<Rightarrow> CpuTime" where
  "sample_user_idle u i =
     \<lparr>user = u, nice = 0, system = 0, idle = i, iowait = 0, irq = 0, softirq = 0,
      steal = 0, guest = 0, guest_nice = 0, successfully_parsed = 1\<rparr>"

section \<open>Per-core utilization in util\_logger.c\<close>

text \<open>
  \<^verbatim>\<open>cpu_snap_t\<close> of util\_logger.c: three arrays of \<^verbatim>\<open>MAX_CORES\<close> entries, as lists
  (the array \<^verbatim>\<open>total\<close> is \<open>total_arr\<close> here).
\<close>

definition MAX_CORES :: nat where
  "MAX_CORES = 8"

record cpu_snap_t =
  total_arr :: "u64 list"
  idle_like :: "u64 list"
  present :: "bool list"

text \<open>\<^verbatim>\<open>delta_u64(a, b)\<close>: the difference \<^verbatim>\<open>b - a\<close>, adjusted for one wrap-around.\<close>

definition delta_u64 :: "u64 \<Rightarrow> u64 \<Rightarrow> u64" where
  "delta_u64 a b = (if b \<ge> a then b - a else b + (- 1 - a) + 1)"

text \<open>
  The body of the loop over \<^verbatim>\<open>c\<close> in \<^verbatim>\<open>main\<close> of util\_logger.c, which fills
  \<^verbatim>\<open>util[c]\<close>; the \<^verbatim>\<open>double\<close> is the exact rational again.
\<close>

definition util_at :: "cpu_snap_t \<Rightarrow> cpu_snap_t \<Rightarrow> nat \<Rightarrow> rat" where
  "util_at s1 s2 c =
     (if present s1 ! c \<and> present s2 ! c then
        let dt = delta_u64 (total_arr s1 ! c) (total_arr s2 ! c);
            di = delta_u64 (idle_like s1 ! c) (idle_like s2 ! c)
        in if dt > 0 \<and> di \<le> dt then 100 * of_nat (unat (dt - di)) / of_nat (unat dt)
           else - 1
      else - 1)"

section \<open>Characters and C strings\<close>

text \<open>
  A buffer is a list of bytes. \<^verbatim>\<open>isdigit\<close> and \<^verbatim>\<open>isspace\<close> are those of the C locale,
  which the programs never change.
\<close>

definition is_digit :: "char \<Rightarrow> bool" where
  "is_digit c = (48 \<le> (of_char c :: nat) \<and> (of_char c :: nat) \<le> 57)"

definition digit_val :: "char \<Rightarrow> nat" where
  "digit_val c = of_char c - 48"

definition is_space :: "char \<Rightarrow> bool" where
  "is_space c = ((of_char c :: nat) = 32 \<or> (9 \<le> (of_char c :: nat) \<and> (of_char c :: nat) \<le> 13))"

text \<open>The C string held by a buffer ends before its first NUL byte.\<close>

definition c_str :: "string \<Rightarrow> string" where
  "c_str buf = takeWhile (\<lambda>c. (of_char c :: nat) \<noteq> 0) buf"

section \<open>The integer reader (logger.c, combined\_gpu\_logger.c, cpu\_logger.c)\<close>

text \<open>
  \<^verbatim>\<open>fast_parse_int\<close>. The accumulator \<^verbatim>\<open>long v\<close> is a 64-bit word (the LP64 targets of
  the programs), its overflow the two's-complement wrap-around; the casts \<^verbatim>\<open>(int)v\<close> and
  \<^verbatim>\<open>(int)(-v)\<close> keep the low 32 bits, read as a signed value.
\<close>

definition is_blank :: "char \<Rightarrow> bool" where
  "is_blank c = ((of_char c :: nat) = 32 \<or> (of_char c :: nat) = 9
                 \<or> (of_char c :: nat) = 10 \<or> (of_char c :: nat) = 13)"

fun parse_digits :: "64 word \<Rightarrow> bool \<Rightarrow> string \<Rightarrow> 64 word \<times> bool" where
  "parse_digits v seen [] = (v, seen)"
| "parse_digits v seen (c # s) =
     (if is_digit c then parse_digits (v * 10 + of_nat (digit_val c)) True s else (v, seen))"

definition to_int :: "64 word \<Rightarrow> int" where
  "to_int v = sint (ucast v :: 32 word)"

definition fast_parse_int :: "string \<Rightarrow> int" where
  "fast_parse_int s =
     (let s1 = dropWhile is_blank s;
          neg = (case s1 of [] \<Rightarrow> False | c # _ \<Rightarrow> c = CHR ''-'');
          s2 = (if neg then tl s1 else s1);
          (v, seen) = parse_digits 0 False s2
      in if \<not> seen then - 1 else if neg then to_int (- v) else to_int v)"

text \<open>
  \<^verbatim>\<open>read_int_fd\<close>. The descriptor reads a file given as \<open>Some\<close> of its bytes, or
  \<open>None\<close> where \<^verbatim>\<open>lseek\<close> or \<^verbatim>\<open>read\<close> fails; \<^verbatim>\<open>read\<close> delivers the first
  \<^verbatim>\<open>bufsz - 1\<close> bytes.
\<close>

definition read_int_fd :: "int \<Rightarrow> string option \<Rightarrow> nat \<Rightarrow> int" where
  "read_int_fd fd file bufsz =
     (if fd < 0 then - 1
      else case file of
        None \<Rightarrow> - 1
      | Some bytes \<Rightarrow>
          let n = min (length bytes) (bufsz - 1)
          in if n \<le> 0 then - 1 else fast_parse_int (c_str (take n bytes)))"

text \<open>
  One counter in one iteration of the loop of logger.c: the read, and the reopen with a
  second read where the value is negative. \<open>reopened\<close> is what \<^verbatim>\<open>open\<close> returns then:
  the new descriptor and the file it reads. The result is the value written to the row,
  the descriptor kept, and whether the reopen was done.
\<close>

definition poll_counter ::
  "int \<Rightarrow> string option \<Rightarrow> int \<times> string option \<Rightarrow> int \<times> int \<times> bool" where
  "poll_counter fd file reopened =
     (let v = read_int_fd fd file 128
      in if v < 0 \<and> fd \<ge> 0
         then (read_int_fd (fst reopened) (snd reopened) 128, fst reopened, True)
         else (v, fd, False))"

section \<open>Numbers as \<^verbatim>\<open>scanf\<close> reads them\<close>

text \<open>
  A numeric conversion of \<^verbatim>\<open>scanf\<close> (\<^verbatim>\<open>%d\<close>, \<^verbatim>\<open>%u\<close>, \<^verbatim>\<open>%llu\<close>) skips white space, takes
  an optional sign and then at least one decimal digit. \<open>scan_number\<close> gives the sign, the
  magnitude and the rest of the input, or \<open>None\<close> for a matching failure.
\<close>

definition dec_value :: "string \<Rightarrow> nat" where
  "dec_value ds = foldl (\<lambda>v c. 10 * v + digit_val c) 0 ds"

definition scan_number :: "string \<Rightarrow> (bool \<times> nat \<times> string) option" where
  "scan_number s =
     (let s1 = dropWhile is_space s;
          neg = (case s1 of [] \<Rightarrow> False | c # _ \<Rightarrow> c = CHR ''-'');
          signed = (case s1 of [] \<Rightarrow> False | c # _ \<Rightarrow> c = CHR ''-'' \<or> c = CHR ''+'');
          s2 = (if signed then tl s1 else s1);
          ds = takeWhile is_digit s2
      in if ds = [] then None else Some (neg, dec_value ds, dropWhile is_digit s2))"

text \<open>
  The value stored is that of \<^verbatim>\<open>strtoull\<close>, \<^verbatim>\<open>strtoul\<close> or \<^verbatim>\<open>strtol\<close> on an LP64
  target, cut to the width of the object: a magnitude out of range saturates, and a
  negative input to an unsigned conversion is negated modulo \<open>2 ^ 64\<close>.
\<close>

definition conv_ull :: "bool \<Rightarrow> nat \<Rightarrow> u64" where
  "conv_ull neg m =
     (if int m \<ge> 2 ^ 64 then - 1 else if neg then - word_of_int (int m) else word_of_int (int m))"

definition conv_u :: "bool \<Rightarrow> nat \<Rightarrow> 32 word" where
  "conv_u neg m = ucast (conv_ull neg m)"

definition conv_d :: "bool \<Rightarrow> nat \<Rightarrow> int" where
  "conv_d neg m =
     to_int (word_of_int (if neg then (if int m > 2 ^ 63 then - (2 ^ 63) else - int m)
                          else (if int m \<ge> 2 ^ 63 then 2 ^ 63 - 1 else int m)))"

definition scan_d :: "string \<Rightarrow> int option" where
  "scan_d s = (case scan_number s of None \<Rightarrow> None | Some (neg, m, rest) \<Rightarrow> Some (conv_d neg m))"

section \<open>The GPU busy reader of util\_logger.c\<close>

text \<open>
  \<^verbatim>\<open>read_gpu_busy\<close>: the return code and the value written through \<^verbatim>\<open>out\<close>, if any. The
  file is \<open>None\<close> where \<^verbatim>\<open>fopen\<close> fails.
\<close>

definition read_gpu_busy :: "string option \<Rightarrow> int \<times> int option" where
  "read_gpu_busy file =
     (case file of
        None \<Rightarrow> (- 1, None)
      | Some bytes \<Rightarrow>
          (case scan_d bytes of
             None \<Rightarrow> (- 1, None)
           | Some val \<Rightarrow> if val < 0 then (- 1, None) else (0, Some val)))"

text \<open>The \<^verbatim>\<open>gpu_busy\<close> that \<^verbatim>\<open>main\<close> of util\_logger.c writes to the row.\<close>

definition gpu_busy_cell :: "string option \<Rightarrow> int" where
  "gpu_busy_cell file =
     (case read_gpu_busy file of
        (rc, out) \<Rightarrow> if rc \<noteq> 0 then - 1 else (case out of None \<Rightarrow> - 1 | Some v \<Rightarrow> v))"

section \<open>Reading \<^verbatim>\<open>/proc/stat\<close> line by line\<close>

text \<open>
  \<^verbatim>\<open>fgets(buf, sz, fp)\<close> delivers at most \<open>sz - 1\<close> bytes, up to and including the
  next newline. \<open>fgets_all sz bytes\<close> is the sequence of buffers that a loop
  \<^verbatim>\<open>while (fgets(...))\<close> sees on a file holding \<open>bytes\<close>.
\<close>

fun take_line :: "nat \<Rightarrow> string \<Rightarrow> string" where
  "take_line 0 s = []"
| "take_line (Suc k) [] = []"
| "take_line (Suc k) (c # s) = (if c = CHR 0x0A then [c] else c # take_line k s)"

function fgets_all :: "nat \<Rightarrow> string \<Rightarrow> string list" where
  "fgets_all sz bytes =
     (if bytes = [] \<or> sz \<le> 1 then []
      else take_line (sz - 1) bytes
             # fgets_all sz (drop (length (take_line (sz - 1) bytes)) bytes))"
  by pat_completeness auto
termination
proof (relation "measure (\<lambda>(sz, bytes). length bytes)")
  show "wf (measure (\<lambda>(sz, bytes). length bytes))" by simp
next
  fix sz :: nat and bytes :: string
  assume a: "\<not> (bytes = [] \<or> sz \<le> 1)"
  then obtain c s k where "bytes = c # s" and "sz - 1 = Suc k"
    by (cases bytes; cases "sz - 1") auto
  then have "0 < length (take_line (sz - 1) bytes)" by simp
  with a show "((sz, drop (length (take_line (sz - 1) bytes)) bytes), (sz, bytes))
      \<in> measure (\<lambda>(sz, bytes). length bytes)"
    by (cases bytes) auto
qed

declare fgets_all.simps [simp del]

text \<open>
  The test \<^verbatim>\<open>strncmp(line, "cpu", 3) == 0 && isdigit(line[3])\<close> of log.c and
  util\_logger.c; where the line has three bytes, \<^verbatim>\<open>line[3]\<close> is the terminating NUL.
\<close>

definition core_prefix :: "string \<Rightarrow> bool" where
  "core_prefix line =
     (take 3 line = ''cpu'' \<and> (case drop 3 line of [] \<Rightarrow> False | c # _ \<Rightarrow> is_digit c))"

text \<open>
  The conversion \<^verbatim>\<open>%s\<close>: white space is skipped, then the bytes up to the next white
  space are taken. The result is the label and the rest of the input.
\<close>

definition scan_label :: "string \<Rightarrow> string \<times> string" where
  "scan_label s =
     (let s1 = dropWhile is_space s
      in (takeWhile (\<lambda>c. \<not> is_space c) s1, dropWhile (\<lambda>c. \<not> is_space c) s1))"

text \<open>Up to \<open>k\<close> conversions \<^verbatim>\<open>%llu\<close> in a row; the first matching failure ends the scan.\<close>

fun scan_ulls :: "nat \<Rightarrow> string \<Rightarrow> u64 list" where
  "scan_ulls 0 s = []"
| "scan_ulls (Suc k) s =
     (case scan_number s of
        None \<Rightarrow> []
      | Some (neg, m, rest) \<Rightarrow> conv_ull neg m # scan_ulls k rest)"

section \<open>The per-core samples of log.c\<close>

text \<open>
  The \<^verbatim>\<open>sscanf\<close> of \<^verbatim>\<open>get_cpu_core_times\<close> on one core line, into an entry that
  \<^verbatim>\<open>memset\<close> has zeroed: the numeric fields that parse are stored in order, the others
  stay 0, and \<^verbatim>\<open>values_parsed\<close> counts the label and the numeric fields. The label goes
  to \<^verbatim>\<open>char cpu_label[16]\<close>, which the model does not keep: a label of 16 bytes or more
  overruns it in the C code, so the model is that of lines whose label fits.
\<close>

definition numeric_fields :: "string \<Rightarrow> u64 list" where
  "numeric_fields line = scan_ulls 10 (snd (scan_label (c_str line)))"

definition label_fits :: "string \<Rightarrow> bool" where
  "label_fits line = (length (fst (scan_label (c_str line))) < 16)"

definition field_or_zero :: "u64 list \<Rightarrow> nat \<Rightarrow> u64" where
  "field_or_zero f i = (if i < length f then f ! i else 0)"

definition parse_core_line :: "string \<Rightarrow> CpuTime" where
  "parse_core_line line =
     (let f = numeric_fields line;
          values_parsed = 1 + length f
      in \<lparr>user = field_or_zero f 0, nice = field_or_zero f 1, system = field_or_zero f 2,
          idle = field_or_zero f 3, iowait = field_or_zero f 4, irq = field_or_zero f 5,
          softirq = field_or_zero f 6, steal = field_or_zero f 7, guest = field_or_zero f 8,
          guest_nice = field_or_zero f 9,
          successfully_parsed = (if values_parsed \<ge> 1 + 8 then 1 else 0)\<rparr>)"

definition zero_CpuTime :: CpuTime where
  "zero_CpuTime =
     \<lparr>user = 0, nice = 0, system = 0, idle = 0, iowait = 0, irq = 0, softirq = 0,
      steal = 0, guest = 0, guest_nice = 0, successfully_parsed = 0\<rparr>"

text \<open>
  The second loop of \<^verbatim>\<open>get_cpu_core_times\<close>, over the buffers that \<^verbatim>\<open>fgets\<close> delivers:
  \<open>i\<close> is \<^verbatim>\<open>current_core_index\<close>, the array has \<^verbatim>\<open>num_cores_found\<close> entries.
\<close>

fun fill_cores :: "string list \<Rightarrow> nat \<Rightarrow> CpuTime list \<Rightarrow> CpuTime list" where
  "fill_cores [] i arr = arr"
| "fill_cores (l # ls) i arr =
     (if i < length arr
      then (if core_prefix l then fill_cores ls (Suc i) (arr[i := parse_core_line l])
            else fill_cores ls i arr)
      else arr)"

text \<open>
  \<^verbatim>\<open>get_cpu_core_times\<close>: the return value and the array stored through the pointer
  (\<open>None\<close> for \<^verbatim>\<open>NULL\<close>). The file is \<open>None\<close> where \<^verbatim>\<open>fopen\<close> fails; after
  \<^verbatim>\<open>rewind\<close> the file reads the same text again; \<^verbatim>\<open>malloc\<close> succeeds.
\<close>

definition get_cpu_core_times :: "string option \<Rightarrow> int \<times> CpuTime list option" where
  "get_cpu_core_times file =
     (case file of
        None \<Rightarrow> (- 1, None)
      | Some text \<Rightarrow>
          let lines = fgets_all 512 text;
              num_cores_found = length (filter core_prefix lines)
          in if num_cores_found = 0 then (0, None)
             else (int num_cores_found,
                   Some (fill_cores lines 0 (replicate num_cores_found zero_CpuTime))))"

text \<open>A file of four lines: the aggregate line, two core lines and another line.\<close>

definition stat_text :: string where
  "stat_text = ''cpu  10 20 30 40 0 0 0 0 0 0\<newline>cpu0 1 2 3 4 5 6 7 8 9 10\<newline>cpu1 1 2 3 4 5 6 7\<newline>intr 5''"

section \<open>The snapshot of util\_logger.c\<close>

text \<open>
  A store \<^verbatim>\<open>a[i] = v\<close> into an array: outside the array the C store is an
  out-of-bounds write, which the model reports as an error.
\<close>

datatype mem_error = OutOfBounds

definition store_at :: "'a list \<Rightarrow> nat \<Rightarrow> 'a \<Rightarrow> mem_error + 'a list" where
  "store_at xs i v = (if i < length xs then Inr (xs[i := v]) else Inl OutOfBounds)"

text \<open>The snapshot after \<^verbatim>\<open>memset(snap, 0, sizeof(*snap))\<close>.\<close>

definition zero_snap :: cpu_snap_t where
  "zero_snap =
     \<lparr>total_arr = replicate MAX_CORES 0, idle_like = replicate MAX_CORES 0,
      present = replicate MAX_CORES False\<rparr>"

text \<open>A snapshot in which core 0 alone is present, with the given total and idle-like value.\<close>

definition snap_one :: "u64 \<Rightarrow> u64 \<Rightarrow> cpu_snap_t" where
  "snap_one t i =
     zero_snap\<lparr>total_arr := (total_arr zero_snap)[0 := t],
              idle_like := (idle_like zero_snap)[0 := i],
              present := (present zero_snap)[0 := True]\<rparr>"

text \<open>
  The \<^verbatim>\<open>sscanf\<close> of \<^verbatim>\<open>read_cpu_snapshot\<close> on a line that starts with \<^verbatim>\<open>cpu\<close>: the
  literal is matched, then \<^verbatim>\<open>%u\<close> gives \<^verbatim>\<open>id\<close> (here \<open>cpu_id\<close>) and up to ten \<^verbatim>\<open>%llu\<close> give the
  fields \<^verbatim>\<open>f\<close>. The result is \<^verbatim>\<open>id\<close> and the fields that parsed, so that the return
  value \<^verbatim>\<open>n\<close> is one more than their number; \<open>None\<close> where \<^verbatim>\<open>%u\<close> does not match.
\<close>

definition scan_cpu_line :: "string \<Rightarrow> (32 word \<times> u64 list) option" where
  "scan_cpu_line line =
     (case scan_number (drop 3 (c_str line)) of
        None \<Rightarrow> None
      | Some (neg, m, rest) \<Rightarrow> Some (conv_u neg m, scan_ulls 10 rest))"

text \<open>The body of the loop of \<^verbatim>\<open>read_cpu_snapshot\<close> for one buffer of \<^verbatim>\<open>fgets\<close>.\<close>

definition snapshot_line :: "string \<Rightarrow> cpu_snap_t \<Rightarrow> mem_error + cpu_snap_t" where
  "snapshot_line line snap =
     (if \<not> core_prefix line then Inr snap
      else case scan_cpu_line line of
        None \<Rightarrow> Inr snap
      | Some (cpu_id, f) \<Rightarrow>
          let n = 1 + length f
          in if n < 5 then Inr snap
             else if unat cpu_id < MAX_CORES then
               let total_v = foldl (+) 0 f;
                   idle_like_v = field_or_zero f 3 + (if n \<ge> 6 then field_or_zero f 4 else 0)
               in (case store_at (total_arr snap) (unat cpu_id) total_v of
                     Inl e \<Rightarrow> Inl e
                   | Inr t \<Rightarrow>
                       (case store_at (idle_like snap) (unat cpu_id) idle_like_v of
                          Inl e \<Rightarrow> Inl e
                        | Inr d \<Rightarrow>
                            (case store_at (present snap) (unat cpu_id) True of
                               Inl e \<Rightarrow> Inl e
                             | Inr p \<Rightarrow> Inr (snap\<lparr>total_arr := t, idle_like := d, present := p\<rparr>))))
             else Inr snap)"

fun snapshot_lines :: "string list \<Rightarrow> cpu_snap_t \<Rightarrow> mem_error + cpu_snap_t" where
  "snapshot_lines [] snap = Inr snap"
| "snapshot_lines (l # ls) snap =
     (case snapshot_line l snap of Inl e \<Rightarrow> Inl e | Inr snap' \<Rightarrow> snapshot_lines ls snap')"

text \<open>
  \<^verbatim>\<open>read_cpu_snapshot\<close>: the return value and the snapshot. The file is \<open>None\<close> where
  \<^verbatim>\<open>fopen\<close> fails.
\<close>

definition read_cpu_snapshot :: "string option \<Rightarrow> mem_error + (int \<times> cpu_snap_t)" where
  "read_cpu_snapshot file =
     (case file of
        None \<Rightarrow> Inr (- 1, zero_snap)
      | Some bytes \<Rightarrow>
          (case snapshot_lines (fgets_all 1024 bytes) zero_snap of
             Inl e \<Rightarrow> Inl e
           | Inr snap \<Rightarrow> Inr (0, snap)))"

text \<open>
  The decimal index that a core line declares after the prefix, and the numeric fields
  that follow it.
\<close>

definition declared_index :: "string \<Rightarrow> nat" where
  "declared_index line = dec_value (takeWhile is_digit (drop 3 (c_str line)))"

definition cpu_fields :: "string \<Rightarrow> u64 list" where
  "cpu_fields line = scan_ulls 10 (dropWhile is_digit (drop 3 (c_str line)))"

definition snap_wf :: "cpu_snap_t \<Rightarrow> bool" where
  "snap_wf snap =
     (length (total_arr snap) = MAX_CORES \<and> length (idle_like snap) = MAX_CORES
      \<and> length (present snap) = MAX_CORES)"

text \<open>Texts for examples: a file with a core missing, and one with lines that are skipped.\<close>

definition stat_gap :: string where
  "stat_gap = ''cpu0 10 0 0 90 0 0 0 0\<newline>cpu1 11 0 0 91 0 0 0 0\<newline>cpu3 13 0 0 93 0 0 0 0\<newline>''"

definition stat_mixed :: string where
  "stat_mixed = ''cpu  10 20 30 40 0 0 0 0 0 0\<newline>cpu9 1 2 3 4\<newline>cpu3 1 2\<newline>cpu5 1 2 3 4\<newline>''"

section \<open>Catalog discovery (cpu\_logger.c)\<close>

text \<open>
  What the scans see of the file system: the names that \<^verbatim>\<open>readdir\<close> delivers for a
  directory, in the order in which it delivers them (\<open>None\<close> where \<^verbatim>\<open>opendir\<close>
  fails), whether \<^verbatim>\<open>access(path, R_OK)\<close> succeeds, and the bytes of a file (\<open>None\<close>
  where \<^verbatim>\<open>open\<close> fails).
\<close>

record filesys =
  dir_entries :: "string \<Rightarrow> string list option"
  can_read :: "string \<Rightarrow> bool"
  file_bytes :: "string \<Rightarrow> string option"

definition CPU_DIR :: string where
  "CPU_DIR = ''/sys/devices/system/cpu''"

definition THERMAL_DIR :: string where
  "THERMAL_DIR = ''/sys/class/thermal''"

definition MAX_CPUS :: nat where
  "MAX_CPUS = 128"

definition MAX_THERMAL_ZONES :: nat where
  "MAX_THERMAL_ZONES = 128"

record cpu_info_t =
  cpu_num :: int
  freq_path :: string

record thermal_info_t =
  zone_name :: string
  type_name :: string
  temp_path :: string

text \<open>\<^verbatim>\<open>snprintf(buf, n, ...)\<close> keeps the first \<open>n - 1\<close> bytes of the formatted text.\<close>

definition snprintf :: "nat \<Rightarrow> string \<Rightarrow> string" where
  "snprintf n s = take (n - 1) s"

text \<open>
  \<^verbatim>\<open>atoi\<close>: the value of \<^verbatim>\<open>strtol\<close> cut to an \<^verbatim>\<open>int\<close>, and 0 where no number starts
  the string.
\<close>

definition atoi :: "string \<Rightarrow> int" where
  "atoi s = (case scan_number s of None \<Rightarrow> 0 | Some (neg, m, rest) \<Rightarrow> conv_d neg m)"

text \<open>
  \<^verbatim>\<open>strcpy\<close> into an array of \<open>n\<close> bytes: a string of \<open>n\<close> bytes or more overruns
  the array.
\<close>

definition strcpy_into :: "nat \<Rightarrow> string \<Rightarrow> mem_error + string" where
  "strcpy_into n s = (if length s < n then Inr s else Inl OutOfBounds)"

text \<open>\<^verbatim>\<open>strstr(hay, needle) != NULL\<close>.\<close>

fun strstr :: "string \<Rightarrow> string \<Rightarrow> bool" where
  "strstr [] needle = (needle = [])"
| "strstr (c # hay) needle = (take (length needle) (c # hay) = needle \<or> strstr hay needle)"

text \<open>
  \<^verbatim>\<open>read_string_file\<close>: \<open>None\<close> for the return value -1, and the string left in the
  buffer for 0.
\<close>

definition read_string_file :: "filesys \<Rightarrow> string \<Rightarrow> nat \<Rightarrow> string option" where
  "read_string_file fs path bufsz =
     (case file_bytes fs path of
        None \<Rightarrow> None
      | Some bytes \<Rightarrow>
          let n = min (length bytes) (bufsz - 1)
          in if n \<le> 0 then None
             else let buf = take n bytes
                  in Some (c_str (if last buf = CHR 0x0A then butlast buf else buf)))"

text \<open>
  The loop of \<^verbatim>\<open>scan_cpus\<close> over the names that \<^verbatim>\<open>readdir\<close> delivers; the list is
  the part \<^verbatim>\<open>cpus[0 .. num_cpus - 1]\<close> of the global array.
\<close>

definition cpu_test_path :: "string \<Rightarrow> string" where
  "cpu_test_path d_name = snprintf 256 (CPU_DIR @ ''/'' @ d_name @ ''/cpufreq/scaling_cur_freq'')"

fun scan_cpus_loop :: "filesys \<Rightarrow> string list \<Rightarrow> cpu_info_t list \<Rightarrow> cpu_info_t list" where
  "scan_cpus_loop fs [] cpus = cpus"
| "scan_cpus_loop fs (d_name # rest) cpus =
     (if \<not> length cpus < MAX_CPUS then cpus
      else if \<not> core_prefix d_name then scan_cpus_loop fs rest cpus
      else if can_read fs (cpu_test_path d_name)
           then scan_cpus_loop fs rest
                  (cpus @ [\<lparr>cpu_num = atoi (drop 3 d_name), freq_path = cpu_test_path d_name\<rparr>])
           else scan_cpus_loop fs rest cpus)"

definition scan_cpus :: "filesys \<Rightarrow> cpu_info_t list" where
  "scan_cpus fs =
     (case dir_entries fs CPU_DIR of None \<Rightarrow> [] | Some entries \<Rightarrow> scan_cpus_loop fs entries [])"

text \<open>The loop of \<^verbatim>\<open>scan_thermal_zones\<close>.\<close>

definition zone_type_path :: "string \<Rightarrow> string" where
  "zone_type_path d_name = snprintf 256 (THERMAL_DIR @ ''/'' @ d_name @ ''/type'')"

definition zone_temp_path :: "string \<Rightarrow> string" where
  "zone_temp_path d_name = snprintf 256 (THERMAL_DIR @ ''/'' @ d_name @ ''/temp'')"

fun scan_thermal_loop ::
  "filesys \<Rightarrow> string list \<Rightarrow> thermal_info_t list \<Rightarrow> mem_error + thermal_info_t list" where
  "scan_thermal_loop fs [] zones = Inr zones"
| "scan_thermal_loop fs (d_name # rest) zones =
     (if \<not> length zones < MAX_THERMAL_ZONES then Inr zones
      else if take 12 d_name \<noteq> ''thermal_zone'' then scan_thermal_loop fs rest zones
      else case read_string_file fs (zone_type_path d_name) 64 of
        None \<Rightarrow> scan_thermal_loop fs rest zones
      | Some type_buf \<Rightarrow>
          if strstr type_buf ''cpu'' \<or> strstr type_buf ''CPU''
          then (case strcpy_into 32 d_name of
                  Inl e \<Rightarrow> Inl e
                | Inr zn \<Rightarrow>
                    (case strcpy_into 64 type_buf of
                       Inl e \<Rightarrow> Inl e
                     | Inr tn \<Rightarrow>
                         scan_thermal_loop fs rest
                           (zones @ [\<lparr>zone_name = zn, type_name = tn,
                                      temp_path = zone_temp_path d_name\<rparr>])))
          else scan_thermal_loop fs rest zones)"

definition scan_thermal_zones :: "filesys \<Rightarrow> mem_error + thermal_info_t list" where
  "scan_thermal_zones fs =
     (case dir_entries fs THERMAL_DIR of
        None \<Rightarrow> Inr []
      | Some entries \<Rightarrow> scan_thermal_loop fs entries [])"

text \<open>
  The columns of the header that \<^verbatim>\<open>main\<close> writes after \<^verbatim>\<open>sample\<close>:
  \<^verbatim>\<open>cpu%d_freq_khz\<close> for each entry of \<^verbatim>\<open>cpus\<close>, then \<^verbatim>\<open>%s_mC\<close> for each thermal zone.
\<close>

datatype counter_source = CpuFreq int | ThermalZone string

definition header_columns :: "cpu_info_t list \<Rightarrow> thermal_info_t list \<Rightarrow> counter_source list" where
  "header_columns cpus zones = map (\<lambda>c. CpuFreq (cpu_num c)) cpus
                               @ map (\<lambda>z. ThermalZone (type_name z)) zones"

text \<open>
  A file system for examples: the two directories with the given names, every path
  readable, and every \<^verbatim>\<open>type\<close> file of a thermal zone holding the given text.
\<close>

definition fake_fs :: "string list \<Rightarrow> string list \<Rightarrow> string \<Rightarrow> filesys" where
  "fake_fs cpu_names zone_names zone_type =
     \<lparr>dir_entries = (\<lambda>d. if d = CPU_DIR then Some cpu_names
                          else if d = THERMAL_DIR then Some zone_names else None),
      can_read = (\<lambda>p. True),
      file_bytes = (\<lambda>p. Some zone_type)\<rparr>"

text \<open>
  The predicate of the specification, in its words: the type contains \<open>cpu\<close>, compared
  without regard to case.
\<close>

definition to_lower :: "char \<Rightarrow> char" where
  "to_lower c = (if 65 \<le> (of_char c :: nat) \<and> (of_char c :: nat) \<le> 90
                 then char_of ((of_char c :: nat) + 32) else c)"

definition spec_type_matches :: "string \<Rightarrow> bool" where
  "spec_type_matches t = strstr (map to_lower t) ''cpu''"

text \<open>
  For stating what the scans return: whether a name of the directory passes the tests of
  the loop, and the entry that is stored for it.
\<close>

definition cpu_qualifies :: "filesys \<Rightarrow> string \<Rightarrow> bool" where
  "cpu_qualifies fs d_name = (core_prefix d_name \<and> can_read fs (cpu_test_path d_name))"

definition cpu_entry :: "string \<Rightarrow> cpu_info_t" where
  "cpu_entry d_name = \<lparr>cpu_num = atoi (drop 3 d_name), freq_path = cpu_test_path d_name\<rparr>"

definition zone_type :: "filesys \<Rightarrow> string \<Rightarrow> string option" where
  "zone_type fs d_name = read_string_file fs (zone_type_path d_name) 64"

definition zone_qualifies :: "filesys \<Rightarrow> string \<Rightarrow> bool" where
  "zone_qualifies fs d_name =
     (take 12 d_name = ''thermal_zone''
      \<and> (case zone_type fs d_name of
            None \<Rightarrow> False
          | Some t \<Rightarrow> strstr t ''cpu'' \<or> strstr t ''CPU''))"

definition zone_entry :: "filesys \<Rightarrow> string \<Rightarrow> thermal_info_t" where
  "zone_entry fs d_name =
     \<lparr>zone_name = d_name,
      type_name = (case zone_type fs d_name of None \<Rightarrow> [] | Some t \<Rightarrow> t),
      temp_path = zone_temp_path d_name\<rparr>"

text \<open>
  The layout of the example: cores 0, 1 and 3 and one thermal zone of type
  \<open>cpu-thermal\<close>, the directories enumerated in ascending order, and the same layout
  with the cores enumerated in another order.
\<close>

definition layout_ascending :: filesys where
  "layout_ascending =
     fake_fs [''.'', ''..'', ''cpu0'', ''cpu1'', ''cpu3'', ''cpufreq'', ''cpuidle'']
       [''.'', ''..'', ''cooling_device0'', ''thermal_zone0''] ''cpu-thermal\<newline>''"

definition layout_shuffled :: filesys where
  "layout_shuffled =
     fake_fs [''cpuidle'', ''cpu3'', ''.'', ''cpu0'', ''cpufreq'', ''..'', ''cpu1'']
       [''.'', ''..'', ''cooling_device0'', ''thermal_zone0''] ''cpu-thermal\<newline>''"

definition zone_cpu_thermal :: thermal_info_t where
  "zone_cpu_thermal =
     \<lparr>zone_name = ''thermal_zone0'', type_name = ''cpu-thermal'',
      temp_path = ''/sys/class/thermal/thermal_zone0/temp''\<rparr>"

section \<open>The sampling loops and their clocks\<close>

text \<open>
  \<^verbatim>\<open>struct timespec\<close>, and a time of the monotonic clock in nanoseconds. The fields are
  integers without a bound: \<^verbatim>\<open>time_t\<close> has 64 bits, which a count of seconds does not
  exhaust.
\<close>

record timespec =
  tv_sec :: int
  tv_nsec :: int

definition ns_of :: "timespec \<Rightarrow> int" where
  "ns_of ts = tv_sec ts * 1000000000 + tv_nsec ts"

text \<open>
  The state of the loop of logger.c (the loops of combined\_gpu\_logger.c and cpu\_logger.c
  are the same): the anchor \<^verbatim>\<open>next\<close>, the time of the clock, and the number of rows
  written.
\<close>

record sched =
  anchor :: timespec
  now :: int
  rows :: nat

text \<open>\<^verbatim>\<open>clock_gettime(CLOCK_MONOTONIC, &next)\<close> before the loop, at time \<open>t0\<close>.\<close>

definition sched_start :: "timespec \<Rightarrow> sched" where
  "sched_start t0 = \<lparr>anchor = t0, now = ns_of t0, rows = 0\<rparr>"

text \<open>
  \<^verbatim>\<open>clock_nanosleep(CLOCK_MONOTONIC, TIMER_ABSTIME, &next, NULL)\<close> returns when the clock
  has reached \<^verbatim>\<open>next\<close>, at once where it already has. No signal handler is installed,
  so the wait is not interrupted.
\<close>

definition clock_nanosleep_abs :: "timespec \<Rightarrow> int \<Rightarrow> int" where
  "clock_nanosleep_abs deadline t = max t (ns_of deadline)"

text \<open>
  One iteration: the reads and the row take \<open>work\<close> nanoseconds, then
  \<^verbatim>\<open>next.tv_sec += 1\<close> and the wait.
\<close>

definition tick :: "sched \<Rightarrow> nat \<Rightarrow> sched" where
  "tick s work =
     (let t1 = now s + int work;
          next1 = (anchor s)\<lparr>tv_sec := tv_sec (anchor s) + 1\<rparr>
      in \<lparr>anchor = next1, now = clock_nanosleep_abs next1 t1, rows = Suc (rows s)\<rparr>)"

text \<open>The loop \<^verbatim>\<open>for (i = 1; i <= seconds; ++i)\<close>, given the work of each iteration.\<close>

fun run_ticks :: "sched \<Rightarrow> nat list \<Rightarrow> sched" where
  "run_ticks s [] = s"
| "run_ticks s (w # ws) = run_ticks (tick s w) ws"

text \<open>
  The loop of util\_logger.c: \<^verbatim>\<open>msleep_exact(interval_sec * 1000)\<close>, a relative
  \<^verbatim>\<open>nanosleep\<close>, followed by the work of the iteration. The product is that of two
  \<^verbatim>\<open>int\<close>s, kept to 32 bits. For a negative argument \<^verbatim>\<open>tv_sec\<close> or \<^verbatim>\<open>tv_nsec\<close> is
  negative, and \<^verbatim>\<open>nanosleep\<close> returns at once with \<^verbatim>\<open>EINVAL\<close>.
\<close>

definition int_times :: "int \<Rightarrow> int \<Rightarrow> int" where
  "int_times a b = sint (word_of_int (a * b) :: 32 word)"

definition msleep_exact :: "int \<Rightarrow> int \<Rightarrow> int" where
  "msleep_exact ms t =
     (if ms < 0 then t else t + ms div 1000 * 1000000000 + ms mod 1000 * 1000000)"

fun run_relative :: "int \<Rightarrow> int \<Rightarrow> nat list \<Rightarrow> int" where
  "run_relative interval_sec t [] = t"
| "run_relative interval_sec t (w # ws) =
     run_relative interval_sec (msleep_exact (int_times interval_sec 1000) t + int w) ws"

text \<open>
  The loop of log.c while \<^verbatim>\<open>keep_running\<close> holds: the work of the iteration, then
  \<^verbatim>\<open>sleep(1)\<close>, which no signal cuts short.
\<close>

fun run_sleep_one :: "int \<Rightarrow> nat list \<Rightarrow> int" where
  "run_sleep_one t [] = t"
| "run_sleep_one t (w # ws) = run_sleep_one (t + int w + 1000000000) ws"

section \<open>Properties of the utilization computation\<close>

lemma utilization_range:
  "successfully_parsed p \<noteq> 0 \<Longrightarrow> successfully_parsed c \<noteq> 0 \<Longrightarrow>
     0 \<le> calculate_core_utilization p c \<and> calculate_core_utilization p c \<le> 100"
  unfolding calculate_core_utilization_def Let_def
  by (simp split: if_splits)

lemma uint_sum2: "uint (a::u64) + uint b < 2 ^ 64 \<Longrightarrow> uint (a + b) = uint a + uint b"
  by (simp add: uint_word_ariths take_bit_int_eq_self)

lemma uint_diff: "(b::u64) \<le> a \<Longrightarrow> uint (a - b) = uint a - uint b"
  by (simp add: uint_minus_simple_alt)

lemma idle_of_no_wrap: "spec_total t < 2 ^ 64 \<Longrightarrow> uint (idle_of t) = spec_idle_like t"
proof -
  assume a: "spec_total t < 2 ^ 64"
  have "0 \<le> spec_non_idle t" by (simp add: spec_non_idle_def)
  with a have "uint (idle t) + uint (iowait t) < 2 ^ 64"
    by (simp add: spec_total_def spec_idle_like_def)
  then show ?thesis by (simp add: idle_of_def spec_idle_like_def uint_sum2)
qed

lemma non_idle_of_no_wrap: "spec_total t < 2 ^ 64 \<Longrightarrow> uint (non_idle_of t) = spec_non_idle t"
proof -
  assume a: "spec_total t < 2 ^ 64"
  have i: "0 \<le> spec_idle_like t" by (simp add: spec_idle_like_def)
  let ?u = "uint (user t)" and ?n = "uint (nice t)" and ?s = "uint (system t)"
    and ?q = "uint (irq t)" and ?o = "uint (softirq t)" and ?l = "uint (steal t)"
  from a i have b: "?u + ?n + ?s + ?q + ?o + ?l < 2 ^ 64"
    by (simp add: spec_total_def spec_non_idle_def)
  have p: "0 \<le> ?u" "0 \<le> ?n" "0 \<le> ?s" "0 \<le> ?q" "0 \<le> ?o" "0 \<le> ?l" by simp_all
  have 1: "uint (user t + nice t) = ?u + ?n" using b p by (intro uint_sum2) linarith
  have 2: "uint (user t + nice t + system t) = ?u + ?n + ?s"
    using b p 1 uint_sum2 [of "user t + nice t" "system t"] by linarith
  have 3: "uint (user t + nice t + system t + irq t) = ?u + ?n + ?s + ?q"
    using b p 2 uint_sum2 [of "user t + nice t + system t" "irq t"] by linarith
  have 4: "uint (user t + nice t + system t + irq t + softirq t) = ?u + ?n + ?s + ?q + ?o"
    using b p 3 uint_sum2 [of "user t + nice t + system t + irq t" "softirq t"] by linarith
  have 5: "uint (user t + nice t + system t + irq t + softirq t + steal t)
      = ?u + ?n + ?s + ?q + ?o + ?l"
    using b p 4 uint_sum2 [of "user t + nice t + system t + irq t + softirq t" "steal t"]
    by linarith
  show ?thesis unfolding non_idle_of_def spec_non_idle_def by (rule 5)
qed

lemma total_of_no_wrap: "spec_total t < 2 ^ 64 \<Longrightarrow> uint (total_of t) = spec_total t"
  using uint_sum2 [of "idle_of t" "non_idle_of t"]
  by (simp add: total_of_def idle_of_no_wrap non_idle_of_no_wrap spec_total_def)

lemma of_nat_unat_rat: "(of_nat (unat w) :: rat) = of_int (uint w)" for w :: u64
  by (metis of_int_of_nat_eq uint_nat)

text \<open>
  Where the sums do not wrap, neither the total nor the idle-like value went backward, the
  total moved, and the idle-like value did not move by more than the total, the code
  computes the formula of the specification.
\<close>

lemma utilization_matches_formula:
  assumes ok: "successfully_parsed p \<noteq> 0" "successfully_parsed c \<noteq> 0"
    and nw: "spec_total p < 2 ^ 64" "spec_total c < 2 ^ 64"
    and fw: "total_of p < total_of c" "idle_of p \<le> idle_of c"
    and le: "idle_of c - idle_of p \<le> total_of c - total_of p"
  shows "calculate_core_utilization p c = spec_utilization p c"
proof -
  let ?td = "total_of c - total_of p" and ?idd = "idle_of c - idle_of p"
  have tdu: "uint ?td = spec_total c - spec_total p"
    using fw(1) nw by (simp add: uint_diff total_of_no_wrap)
  have idu: "uint ?idd = spec_idle_like c - spec_idle_like p"
    using fw(2) nw by (simp add: uint_diff idle_of_no_wrap)
  have dd: "uint (?td - ?idd) = uint ?td - uint ?idd"
    using le by (rule uint_diff)
  have tdpos: "?td \<noteq> 0" using fw(1) by simp
  have nb: "\<not> (total_of c < total_of p)" "\<not> (idle_of c < idle_of p)"
    using fw by auto
  have "calculate_core_utilization p c =
      clamp_percent (of_nat (unat (?td - ?idd)) * 100 / of_nat (unat ?td))"
    unfolding calculate_core_utilization_def Let_def clamp_percent_def
    using ok tdpos nb by simp
  also have "\<dots> = clamp_percent (100 * of_int (uint ?td - uint ?idd) / of_int (uint ?td))"
    unfolding of_nat_unat_rat dd by (simp only: mult.commute)
  also have "\<dots> = spec_utilization p c"
    unfolding spec_utilization_def Let_def tdu idu ..
  finally show ?thesis .
qed

lemma utilization_example_fifty:
  "calculate_core_utilization (sample_user_idle 100 900) (sample_user_idle 150 950) = 50"
  by (simp add: calculate_core_utilization_def sample_user_idle_def idle_of_def
        non_idle_of_def total_of_def Let_def)

text \<open>
  C1. The claim: for parsed samples whose total and idle-like value did not go backward and
  whose total moved, the result is 100 * (total delta - idle delta) / total delta clamped
  to [0, 100]. The code does not do this where the idle-like value moved by more than the
  total: from \<open>user = 100\<close> to \<open>idle = 150\<close> the total moves by 50 and the idle-like
  value by 150, the formula gives -200, clamped to 0, and the code returns 100, because
  \<^verbatim>\<open>total_diff - idle_diff\<close> is an unsigned subtraction and wraps before the clamp.
\<close>

theorem utilization_wraps_to_hundred:
  "successfully_parsed (sample_user_idle 100 0) \<noteq> 0
   \<and> successfully_parsed (sample_user_idle 0 150) \<noteq> 0
   \<and> total_of (sample_user_idle 100 0) \<le> total_of (sample_user_idle 0 150)
   \<and> idle_of (sample_user_idle 100 0) \<le> idle_of (sample_user_idle 0 150)
   \<and> total_of (sample_user_idle 0 150) - total_of (sample_user_idle 100 0) = 50
   \<and> idle_of (sample_user_idle 0 150) - idle_of (sample_user_idle 100 0) = 150
   \<and> spec_utilization (sample_user_idle 100 0) (sample_user_idle 0 150) = 0
   \<and> calculate_core_utilization (sample_user_idle 100 0) (sample_user_idle 0 150) = 100"
  by (simp add: calculate_core_utilization_def spec_utilization_def sample_user_idle_def
        idle_of_def non_idle_of_def total_of_def spec_idle_like_def spec_non_idle_def
        spec_total_def clamp_percent_def Let_def)

lemma util_at_zero_delta:
  "present s1 ! k \<Longrightarrow> present s2 ! k \<Longrightarrow> total_arr s2 ! k = total_arr s1 ! k \<Longrightarrow>
   util_at s1 s2 k = - 1"
  by (simp add: util_at_def delta_u64_def Let_def)

lemma delta_u64_sub: "b < a \<Longrightarrow> delta_u64 a b = b - a" for a b :: u64
  unfolding delta_u64_def by (simp add: not_le [symmetric] del: not_le)

lemma delta_u64_backward:
  assumes "b < a"
  shows "int (unat (delta_u64 a b)) = 2 ^ 64 + int (unat b) - int (unat a)"
proof -
  from assms have "\<not> uint a \<le> uint b" by (simp add: word_less_def)
  then have "uint (b - a) = uint b - uint a + 2 ^ 64"
    by (simp add: uint_sub_if')
  then have "int (unat (b - a)) = int (unat b) - int (unat a) + 2 ^ 64"
    unfolding uint_nat .
  then show ?thesis unfolding delta_u64_sub [OF assms] by linarith
qed

lemma util_at_present:
  assumes "present s1 ! k" and "present s2 ! k"
  shows "util_at s1 s2 k =
    (let dt = delta_u64 (total_arr s1 ! k) (total_arr s2 ! k);
         di = delta_u64 (idle_like s1 ! k) (idle_like s2 ! k)
     in if 0 < dt \<and> di \<le> dt
        then 100 * (of_nat (unat dt) - of_nat (unat di)) / of_nat (unat dt)
        else unavailable)"
proof -
  have "of_nat (unat (dt - di)) = (of_nat (unat dt) - of_nat (unat di) :: rat)"
    if "di \<le> dt" for dt di :: u64
  proof -
    from that have "unat (dt - di) = unat dt - unat di" by (simp add: unat_sub)
    moreover from that have "unat di \<le> unat dt" by (simp add: word_le_nat_alt)
    ultimately show ?thesis by (simp add: of_nat_diff)
  qed
  with assms show ?thesis
    by (simp add: util_at_def Let_def unavailable_def)
qed

lemma snap_one_at_zero:
  "present (snap_one t i) ! 0" "total_arr (snap_one t i) ! 0 = t" "idle_like (snap_one t i) ! 0 = i"
  by (simp_all add: snap_one_def zero_snap_def MAX_CORES_def)

text \<open>
  C2, as the code has it. For two parsed samples whose total delta is zero,
  \<^verbatim>\<open>calculate_core_utilization\<close> of log.c returns 0.0, and not the marker -1.0, whatever
  the idle-like values are. The loop of util\_logger.c gives the marker -1.0 for two present
  samples whose totals are equal.
\<close>

theorem zero_total_delta_gives_zero:
  "(successfully_parsed p \<noteq> 0 \<longrightarrow> successfully_parsed c \<noteq> 0
      \<longrightarrow> total_of c - total_of p = 0
      \<longrightarrow> calculate_core_utilization p c = 0
          \<and> calculate_core_utilization p c \<noteq> unavailable)
   \<and> (present s1 ! k \<longrightarrow> present s2 ! k \<longrightarrow> total_arr s2 ! k = total_arr s1 ! k
        \<longrightarrow> util_at s1 s2 k = unavailable)"
proof (intro conjI impI)
  assume "successfully_parsed p \<noteq> 0" "successfully_parsed c \<noteq> 0"
    "total_of c - total_of p = 0"
  then show "calculate_core_utilization p c = 0"
    by (simp add: calculate_core_utilization_def Let_def)
  then show "calculate_core_utilization p c \<noteq> unavailable"
    by (simp add: unavailable_def)
next
  assume "present s1 ! k" "present s2 ! k" "total_arr s2 ! k = total_arr s1 ! k"
  then show "util_at s1 s2 k = unavailable"
    unfolding unavailable_def by (rule util_at_zero_delta)
qed

theorem zero_total_delta_gives_zero_witness:
  "successfully_parsed (sample_user_idle 100 900) \<noteq> 0
   \<and> successfully_parsed (sample_user_idle 50 950) \<noteq> 0
   \<and> total_of (sample_user_idle 50 950) - total_of (sample_user_idle 100 900) = 0
   \<and> idle_of (sample_user_idle 50 950) - idle_of (sample_user_idle 100 900) = 50
   \<and> calculate_core_utilization (sample_user_idle 100 900) (sample_user_idle 50 950) = 0
   \<and> calculate_core_utilization (sample_user_idle 100 900) (sample_user_idle 50 950)
       \<noteq> unavailable
   \<and> present (snap_one 1000 900) ! 0 \<and> present (snap_one 1000 950) ! 0
   \<and> total_arr (snap_one 1000 950) ! 0 = total_arr (snap_one 1000 900) ! 0
   \<and> util_at (snap_one 1000 900) (snap_one 1000 950) 0 = unavailable"
proof -
  have 1: "successfully_parsed (sample_user_idle 100 900) \<noteq> 0"
    and 2: "successfully_parsed (sample_user_idle 50 950) \<noteq> 0"
    by (simp_all add: sample_user_idle_def)
  have 3: "total_of (sample_user_idle 50 950) - total_of (sample_user_idle 100 900) = 0"
    and 4: "idle_of (sample_user_idle 50 950) - idle_of (sample_user_idle 100 900) = 50"
    by (simp_all add: sample_user_idle_def idle_of_def non_idle_of_def total_of_def)
  have 5: "present (snap_one 1000 900) ! 0" and 6: "present (snap_one 1000 950) ! 0"
    by code_simp+
  have 7: "total_arr (snap_one 1000 950) ! 0 = total_arr (snap_one 1000 900) ! 0"
    by code_simp
  note t = zero_total_delta_gives_zero [of "sample_user_idle 100 900" "sample_user_idle 50 950"
      "snap_one 1000 900" 0 "snap_one 1000 950"]
  from t 1 2 3 have 8: "calculate_core_utilization (sample_user_idle 100 900)
      (sample_user_idle 50 950) = 0
      \<and> calculate_core_utilization (sample_user_idle 100 900) (sample_user_idle 50 950)
          \<noteq> unavailable"
    by blast
  from t 5 6 7 have 9: "util_at (snap_one 1000 900) (snap_one 1000 950) 0 = unavailable"
    by blast
  from 1 2 3 4 5 6 7 8 9 show ?thesis by blast
qed

text \<open>
  C2, as the claim has it, fails in util\_logger.c: two present samples with the same total
  (and idle-like values 900 and 950) give -1.0, the marker, and not 0.0.
\<close>

theorem zero_delta_is_unavailable_in_util_logger:
  "present (snap_one 1000 900) ! 0
   \<and> present (snap_one 1000 950) ! 0
   \<and> delta_u64 (total_arr (snap_one 1000 900) ! 0) (total_arr (snap_one 1000 950) ! 0) = 0
   \<and> util_at (snap_one 1000 900) (snap_one 1000 950) 0 = - 1
   \<and> util_at (snap_one 1000 900) (snap_one 1000 950) 0 = unavailable
   \<and> util_at (snap_one 1000 900) (snap_one 1000 950) 0 \<noteq> 0"
  by code_simp

text \<open>
  C3, as the code has it. For two parsed samples of which the current total is below the
  previous total, or the current idle-like value below the previous one,
  \<^verbatim>\<open>calculate_core_utilization\<close> of log.c returns 0.0. The loop of util\_logger.c takes a
  value that went backward for a wrap-around: \<^verbatim>\<open>delta_u64\<close> is then the difference plus
  \<open>2 ^ 64\<close>, and two present samples give the percentage of these adjusted differences
  where the idle-like difference does not exceed the positive total difference, and the
  marker -1.0 otherwise.
\<close>

theorem backward_counter_gives_zero:
  "(successfully_parsed p \<noteq> 0 \<longrightarrow> successfully_parsed c \<noteq> 0
      \<longrightarrow> total_of c < total_of p \<or> idle_of c < idle_of p
      \<longrightarrow> calculate_core_utilization p c = 0)
   \<and> (b < a \<longrightarrow> int (unat (delta_u64 a b)) = 2 ^ 64 + int (unat b) - int (unat a))
   \<and> (present s1 ! k \<longrightarrow> present s2 ! k \<longrightarrow>
        util_at s1 s2 k =
          (let dt = delta_u64 (total_arr s1 ! k) (total_arr s2 ! k);
               di = delta_u64 (idle_like s1 ! k) (idle_like s2 ! k)
           in if 0 < dt \<and> di \<le> dt
              then 100 * (of_nat (unat dt) - of_nat (unat di)) / of_nat (unat dt)
              else unavailable))"
proof (intro conjI impI)
  assume "successfully_parsed p \<noteq> 0" "successfully_parsed c \<noteq> 0"
    "total_of c < total_of p \<or> idle_of c < idle_of p"
  then show "calculate_core_utilization p c = 0"
    by (auto simp add: calculate_core_utilization_def Let_def)
next
  assume "b < a"
  then show "int (unat (delta_u64 a b)) = 2 ^ 64 + int (unat b) - int (unat a)"
    by (rule delta_u64_backward)
next
  assume "present s1 ! k" "present s2 ! k"
  then show "util_at s1 s2 k =
          (let dt = delta_u64 (total_arr s1 ! k) (total_arr s2 ! k);
               di = delta_u64 (idle_like s1 ! k) (idle_like s2 ! k)
           in if 0 < dt \<and> di \<le> dt
              then 100 * (of_nat (unat dt) - of_nat (unat di)) / of_nat (unat dt)
              else unavailable)"
    by (rule util_at_present)
qed


theorem backward_counter_gives_zero_witness:
  "successfully_parsed (sample_user_idle 100 900) \<noteq> 0
   \<and> successfully_parsed (sample_user_idle 50 900) \<noteq> 0
   \<and> (total_of (sample_user_idle 50 900) < total_of (sample_user_idle 100 900)
      \<or> idle_of (sample_user_idle 50 900) < idle_of (sample_user_idle 100 900))
   \<and> calculate_core_utilization (sample_user_idle 100 900) (sample_user_idle 50 900) = 0
   \<and> (500 :: u64) < 1000
   \<and> int (unat (delta_u64 1000 500)) = 18446744073709551116
   \<and> present (snap_one 1000 900) ! 0 \<and> present (snap_one 500 100) ! 0
   \<and> util_at (snap_one 1000 900) (snap_one 500 100) 0 = 30000 / 18446744073709551116"
proof -
  have 1: "successfully_parsed (sample_user_idle 100 900) \<noteq> 0"
    and 2: "successfully_parsed (sample_user_idle 50 900) \<noteq> 0"
    by (simp_all add: sample_user_idle_def)
  have 3: "total_of (sample_user_idle 50 900) < total_of (sample_user_idle 100 900)
      \<or> idle_of (sample_user_idle 50 900) < idle_of (sample_user_idle 100 900)"
    by (simp add: sample_user_idle_def idle_of_def non_idle_of_def total_of_def)
  have 4: "(500 :: u64) < 1000" by simp
  have dt: "delta_u64 1000 500 = 18446744073709551116" by (simp add: delta_u64_def)
  have di: "delta_u64 900 100 = 18446744073709550816" by (simp add: delta_u64_def)
  note t = backward_counter_gives_zero [of "sample_user_idle 100 900" "sample_user_idle 50 900"
      500 1000 "snap_one 1000 900" 0 "snap_one 500 100"]
  from t 1 2 3
  have 5: "calculate_core_utilization (sample_user_idle 100 900) (sample_user_idle 50 900) = 0"
    by blast
  from t 4 have "int (unat (delta_u64 1000 500)) = 2 ^ 64 + int (unat (500 :: u64))
      - int (unat (1000 :: u64))"
    by blast
  then have 6: "int (unat (delta_u64 1000 500)) = 18446744073709551116" by simp
  from t snap_one_at_zero(1) have "util_at (snap_one 1000 900) (snap_one 500 100) 0 =
          (let dt = delta_u64 (total_arr (snap_one 1000 900) ! 0) (total_arr (snap_one 500 100) ! 0);
               di = delta_u64 (idle_like (snap_one 1000 900) ! 0) (idle_like (snap_one 500 100) ! 0)
           in if 0 < dt \<and> di \<le> dt
              then 100 * (of_nat (unat dt) - of_nat (unat di)) / of_nat (unat dt)
              else unavailable)"
    by blast
  then have 7: "util_at (snap_one 1000 900) (snap_one 500 100) 0
      = 30000 / 18446744073709551116"
    by (simp add: snap_one_at_zero Let_def dt di)
  from 1 2 3 5 4 6 snap_one_at_zero(1) 7 show ?thesis by blast
qed

text \<open>
  C3, as the claim has it, fails in util\_logger.c: from total 1000 to total 500 the result
  is the percentage of the wrapped differences, which is not 0.0, or the marker -1.0.
\<close>

theorem backward_counter_is_wrapped_in_util_logger:
  "present (snap_one 1000 900) ! 0
   \<and> present (snap_one 500 100) ! 0
   \<and> total_arr (snap_one 500 100) ! 0 < total_arr (snap_one 1000 900) ! 0
   \<and> util_at (snap_one 1000 900) (snap_one 500 100) 0 = 30000 / 18446744073709551116
   \<and> util_at (snap_one 1000 900) (snap_one 500 100) 0 \<noteq> 0
   \<and> total_arr (snap_one 500 450) ! 0 < total_arr (snap_one 1000 900) ! 0
   \<and> util_at (snap_one 1000 900) (snap_one 500 450) 0 = - 1"
proof -
  have dt: "delta_u64 1000 500 = 18446744073709551116" by (simp add: delta_u64_def)
  have di: "delta_u64 900 100 = 18446744073709550816" by (simp add: delta_u64_def)
  have di': "delta_u64 900 450 = 18446744073709551166" by (simp add: delta_u64_def)
  have 1: "util_at (snap_one 1000 900) (snap_one 500 100) 0 = 30000 / 18446744073709551116"
    by (simp add: util_at_def snap_one_at_zero Let_def dt di)
  have 2: "util_at (snap_one 1000 900) (snap_one 500 450) 0 = - 1"
    by (simp add: util_at_def snap_one_at_zero Let_def dt di')
  from 1 have 3: "util_at (snap_one 1000 900) (snap_one 500 100) 0 \<noteq> 0" by simp
  from 1 2 3 show ?thesis by (simp add: snap_one_at_zero)
qed

text \<open>
  C4. Where the success flag of either sample is false, \<^verbatim>\<open>calculate_core_utilization\<close>
  returns the marker -1.0, whatever the counters hold: the result is neither zero nor a
  percentage, and the counters of the two samples do not enter it. The loop of
  util\_logger.c does the same with its \<^verbatim>\<open>present\<close> flags.
\<close>

theorem unparsed_sample_gives_unavailable:
  assumes "successfully_parsed p = 0 \<or> successfully_parsed c = 0"
  shows "calculate_core_utilization p c = unavailable
         \<and> calculate_core_utilization p c \<noteq> 0
         \<and> \<not> (0 \<le> calculate_core_utilization p c)
         \<and> (successfully_parsed p' = successfully_parsed p
             \<longrightarrow> successfully_parsed c' = successfully_parsed c
             \<longrightarrow> calculate_core_utilization p' c' = calculate_core_utilization p c)
         \<and> (\<not> present s1 ! k \<or> \<not> present s2 ! k \<longrightarrow> util_at s1 s2 k = unavailable)"
  using assms by (auto simp add: calculate_core_utilization_def unavailable_def util_at_def)

theorem unparsed_sample_gives_unavailable_witness:
  "(successfully_parsed ((sample_user_idle 100 900)\<lparr>successfully_parsed := 0\<rparr>) = 0
      \<or> successfully_parsed (sample_user_idle 150 950) = 0)
   \<and> calculate_core_utilization ((sample_user_idle 100 900)\<lparr>successfully_parsed := 0\<rparr>)
        (sample_user_idle 150 950) = unavailable
   \<and> calculate_core_utilization ((sample_user_idle 7 5)\<lparr>successfully_parsed := 0\<rparr>)
        (sample_user_idle 3 4) = unavailable
   \<and> util_at \<lparr>total_arr = [1000], idle_like = [900], present = [False]\<rparr>
        \<lparr>total_arr = [1100], idle_like = [950], present = [True]\<rparr> 0 = unavailable"
  using unparsed_sample_gives_unavailable
    [of "(sample_user_idle 100 900)\<lparr>successfully_parsed := 0\<rparr>" "sample_user_idle 150 950"
        "(sample_user_idle 7 5)\<lparr>successfully_parsed := 0\<rparr>" "sample_user_idle 3 4"
        "\<lparr>total_arr = [1000], idle_like = [900], present = [False]\<rparr>" 0
        "\<lparr>total_arr = [1100], idle_like = [950], present = [True]\<rparr>"]
  by (simp add: sample_user_idle_def)

section \<open>The failure value of the integer reader\<close>

text \<open>
  C10. The failure value of the integer reader is -1, which is also the value of the text
  \<open>-1\<close>: \<^verbatim>\<open>fast_parse_int\<close> and \<^verbatim>\<open>read_int_fd\<close> return the same for a file holding
  \<open>-1\<close> as for a file without digits, a failed read or a descriptor that is not open.
  The callers take every negative value for a failure: the loop of logger.c reopens the
  file and reads again whenever the value read is negative, and \<^verbatim>\<open>read_gpu_busy\<close> of
  util\_logger.c reports failure for every negative number, so that the row holds -1.
\<close>

theorem parse_failure_sentinel_is_a_value:
  "fast_parse_int ''-1'' = - 1
   \<and> fast_parse_int ''abc'' = - 1
   \<and> fast_parse_int [] = - 1
   \<and> read_int_fd 3 (Some ''-1'') 128 = read_int_fd 3 None 128
   \<and> read_int_fd 3 (Some ''-1'') 128 = read_int_fd (- 1) (Some ''7'') 128
   \<and> (0 \<le> fd \<longrightarrow> read_int_fd fd file 128 < 0 \<longrightarrow>
        poll_counter fd file reopened
          = (read_int_fd (fst reopened) (snd reopened) 128, fst reopened, True))
   \<and> (scan_d bytes = Some v \<longrightarrow> v < 0 \<longrightarrow>
        read_gpu_busy (Some bytes) = read_gpu_busy None
        \<and> gpu_busy_cell (Some bytes) = - 1)"
proof -
  have 1: "fast_parse_int ''-1'' = - 1" by code_simp
  have 2: "fast_parse_int ''abc'' = - 1" by code_simp
  have 3: "fast_parse_int [] = - 1" by code_simp
  have 4: "read_int_fd 3 (Some ''-1'') 128 = read_int_fd 3 None 128" by code_simp
  have 5: "read_int_fd 3 (Some ''-1'') 128 = read_int_fd (- 1) (Some ''7'') 128" by code_simp
  have 6: "0 \<le> fd \<longrightarrow> read_int_fd fd file 128 < 0 \<longrightarrow>
        poll_counter fd file reopened
          = (read_int_fd (fst reopened) (snd reopened) 128, fst reopened, True)"
    by (simp add: poll_counter_def Let_def)
  have 7: "scan_d bytes = Some v \<longrightarrow> v < 0 \<longrightarrow>
        read_gpu_busy (Some bytes) = read_gpu_busy None
        \<and> gpu_busy_cell (Some bytes) = - 1"
    by (simp add: read_gpu_busy_def gpu_busy_cell_def)
  from 1 2 3 4 5 6 7 show ?thesis by blast
qed

theorem parse_failure_sentinel_is_a_value_witness:
  "(0::int) \<le> 3 \<and> read_int_fd 3 (Some ''-42\<newline>'') 128 = - 42
   \<and> poll_counter 3 (Some ''-42\<newline>'') (- 1, None) = (- 1, - 1, True)
   \<and> scan_d ''-5\<newline>'' = Some (- 5)
   \<and> read_gpu_busy (Some ''-5\<newline>'') = (- 1, None)
   \<and> gpu_busy_cell (Some ''-5\<newline>'') = - 1"
proof -
  have r: "read_int_fd 3 (Some ''-42\<newline>'') 128 = - 42" by code_simp
  have s: "scan_d ''-5\<newline>'' = Some (- 5)" by code_simp
  have n: "read_int_fd (- 1) None 128 = - 1" by code_simp
  have g: "read_gpu_busy None = (- 1, None)" by code_simp
  from parse_failure_sentinel_is_a_value
    [of 3 "Some ''-42\<newline>''" "(- 1, None)" "''-5\<newline>''" "- 5"] r s n g
  show ?thesis by simp
qed

section \<open>The slots of the snapshot\<close>

lemma store_at_ok: "i < length xs \<Longrightarrow> store_at xs i v = Inr (xs[i := v])"
  by (simp add: store_at_def)

lemma snapshot_line_wf:
  assumes "snap_wf s"
  shows "\<exists>s'. snapshot_line l s = Inr s' \<and> snap_wf s'"
  using assms unfolding snapshot_line_def snap_wf_def Let_def
  by (auto simp add: store_at_ok split: option.splits)

lemma snapshot_lines_wf:
  "snap_wf s \<Longrightarrow> \<exists>s'. snapshot_lines ls s = Inr s' \<and> snap_wf s'"
proof (induction ls arbitrary: s)
  case Nil
  then show ?case by simp
next
  case (Cons l ls)
  from snapshot_line_wf [OF Cons.prems, of l]
  obtain s1 where 1: "snapshot_line l s = Inr s1" and 2: "snap_wf s1" by blast
  from Cons.IH [OF 2] 1 show ?case by simp
qed

lemma zero_snap_wf: "snap_wf zero_snap"
  by (simp add: snap_wf_def zero_snap_def)

lemma digit_not_nul: "is_digit d \<Longrightarrow> (of_char d :: nat) \<noteq> 0"
  by (simp add: is_digit_def)

lemma digit_not_space: "is_digit d \<Longrightarrow> \<not> is_space d"
  by (auto simp add: is_digit_def is_space_def)

lemma digit_not_sign: "is_digit d \<Longrightarrow> d \<noteq> CHR ''-'' \<and> d \<noteq> CHR ''+''"
  by (auto simp add: is_digit_def)

lemma core_prefix_c_str:
  assumes "core_prefix l"
  shows "\<exists>d r. drop 3 (c_str l) = d # r \<and> is_digit d"
proof -
  from assms obtain d r where l: "l = CHR ''c'' # CHR ''p'' # CHR ''u'' # d # r" and d: "is_digit d"
    unfolding core_prefix_def
    by (cases l; cases "tl l"; cases "tl (tl l)"; cases "tl (tl (tl l))") (auto split: list.splits)
  from d have "(of_char d :: nat) \<noteq> 0" by (rule digit_not_nul)
  with l have "drop 3 (c_str l) = d # takeWhile (\<lambda>c. (of_char c :: nat) \<noteq> 0) r"
    by (simp add: c_str_def)
  with d show ?thesis by blast
qed

lemma scan_number_digit:
  assumes "is_digit d"
  shows "scan_number (d # r)
    = Some (False, dec_value (takeWhile is_digit (d # r)), dropWhile is_digit (d # r))"
  using assms digit_not_space [OF assms] digit_not_sign [OF assms]
  by (simp add: scan_number_def Let_def)

lemma scan_cpu_line_core:
  assumes "core_prefix l"
  shows "scan_cpu_line l = Some (conv_u False (declared_index l), cpu_fields l)"
proof -
  from core_prefix_c_str [OF assms] obtain d r
    where dr: "drop 3 (c_str l) = d # r" and d: "is_digit d" by blast
  show ?thesis
    unfolding scan_cpu_line_def declared_index_def cpu_fields_def dr
    by (simp add: scan_number_digit [OF d])
qed

lemma conv_u_small:
  assumes m: "m < 2 ^ 32"
  shows "unat (conv_u False m) = m"
proof -
  from m have m64: "m < 2 ^ 64" by (simp add: order_less_trans [of _ "2 ^ 32"])
  then have i64: "\<not> (2 ^ 64 \<le> int m)" by (simp add: not_le of_nat_less_numeral_power_cancel_iff)
  have "unat (word_of_int (int m) :: 64 word) = m"
    using m64 by (simp add: unat_of_nat take_bit_nat_eq_self)
  then have "unat (ucast (word_of_int (int m) :: 64 word) :: 32 word) = take_bit 32 m"
    by (simp add: unsigned_ucast_eq)
  with m i64 show ?thesis by (simp add: conv_u_def conv_ull_def take_bit_nat_eq_self)
qed

lemma snapshot_line_stores:
  assumes wf: "snap_wf s" and cp: "core_prefix l"
    and idx: "declared_index l < MAX_CORES" and nf: "4 \<le> length (cpu_fields l)"
  shows "snapshot_line l s =
    Inr (s\<lparr>total_arr := (total_arr s)[declared_index l := foldl (+) 0 (cpu_fields l)],
           idle_like := (idle_like s)[declared_index l :=
              cpu_fields l ! 3 + (if 5 \<le> length (cpu_fields l) then cpu_fields l ! 4 else 0)],
           present := (present s)[declared_index l := True]\<rparr>)"
proof -
  from idx have "declared_index l < 2 ^ 32" by (simp add: MAX_CORES_def)
  then have u: "unat (conv_u False (declared_index l)) = declared_index l"
    by (rule conv_u_small)
  from wf idx have b: "declared_index l < length (total_arr s)"
    "declared_index l < length (idle_like s)" "declared_index l < length (present s)"
    by (simp_all add: snap_wf_def)
  show ?thesis
    unfolding snapshot_line_def Let_def
    using cp nf idx b
    by (simp add: scan_cpu_line_core u store_at_ok field_or_zero_def)
qed

lemma snapshot_line_skips:
  assumes "\<not> core_prefix l \<or> length (cpu_fields l) < 4
           \<or> (MAX_CORES \<le> declared_index l \<and> declared_index l < 2 ^ 32)"
  shows "snapshot_line l s = Inr s"
proof (cases "core_prefix l")
  case False
  then show ?thesis by (simp add: snapshot_line_def)
next
  case True
  show ?thesis
  proof (cases "length (cpu_fields l) < 4")
    case True
    with \<open>core_prefix l\<close> show ?thesis
      by (simp add: snapshot_line_def scan_cpu_line_core Let_def)
  next
    case False
    with assms \<open>core_prefix l\<close>
    have big: "MAX_CORES \<le> declared_index l" and small: "declared_index l < 2 ^ 32" by auto
    from small have "unat (conv_u False (declared_index l)) = declared_index l"
      by (rule conv_u_small)
    with big \<open>core_prefix l\<close> show ?thesis
      by (simp add: snapshot_line_def scan_cpu_line_core Let_def)
  qed
qed

lemma read_cpu_snapshot_safe:
  "\<exists>snap. read_cpu_snapshot (Some bytes) = Inr (0, snap) \<and> snap_wf snap"
proof -
  from snapshot_lines_wf [OF zero_snap_wf, of "fgets_all 1024 bytes"]
  obtain snap where "snapshot_lines (fgets_all 1024 bytes) zero_snap = Inr snap" and "snap_wf snap"
    by blast
  then show ?thesis by (simp add: read_cpu_snapshot_def)
qed

lemma snapshot_line_present:
  assumes wf: "snap_wf s" and small: "core_prefix l \<longrightarrow> declared_index l < 2 ^ 32"
    and k: "k < MAX_CORES"
  shows "\<exists>s'. snapshot_line l s = Inr s' \<and> snap_wf s'
    \<and> (present s' ! k \<longleftrightarrow>
         present s ! k \<or> (core_prefix l \<and> 4 \<le> length (cpu_fields l) \<and> declared_index l = k))"
proof (cases "core_prefix l \<and> 4 \<le> length (cpu_fields l) \<and> declared_index l < MAX_CORES")
  case True
  then have cp: "core_prefix l" and nf: "4 \<le> length (cpu_fields l)"
    and idx: "declared_index l < MAX_CORES" by simp_all
  from wf idx k have b: "declared_index l < length (present s)" "k < length (present s)"
    by (simp_all add: snap_wf_def)
  from wf have "snap_wf (s\<lparr>total_arr := (total_arr s)[declared_index l := foldl (+) 0 (cpu_fields l)],
           idle_like := (idle_like s)[declared_index l :=
              cpu_fields l ! 3 + (if 5 \<le> length (cpu_fields l) then cpu_fields l ! 4 else 0)],
           present := (present s)[declared_index l := True]\<rparr>)"
    by (simp add: snap_wf_def)
  with snapshot_line_stores [OF wf cp idx nf] cp nf b show ?thesis
    by (auto simp add: nth_list_update)
next
  case False
  with small have "\<not> core_prefix l \<or> length (cpu_fields l) < 4
           \<or> (MAX_CORES \<le> declared_index l \<and> declared_index l < 2 ^ 32)"
    by auto
  from snapshot_line_skips [OF this, of s] wf False k show ?thesis by auto
qed

lemma snapshot_lines_present:
  assumes "snap_wf s" and "\<forall>l \<in> set ls. core_prefix l \<longrightarrow> declared_index l < 2 ^ 32"
    and "k < MAX_CORES"
  shows "\<exists>s'. snapshot_lines ls s = Inr s' \<and> snap_wf s'
    \<and> (present s' ! k \<longleftrightarrow>
         present s ! k
         \<or> (\<exists>l \<in> set ls. core_prefix l \<and> 4 \<le> length (cpu_fields l) \<and> declared_index l = k))"
  using assms
proof (induction ls arbitrary: s)
  case Nil
  then show ?case by simp
next
  case (Cons l ls)
  from Cons.prems have small: "core_prefix l \<longrightarrow> declared_index l < 2 ^ 32"
    and rest: "\<forall>l \<in> set ls. core_prefix l \<longrightarrow> declared_index l < 2 ^ 32" by simp_all
  from snapshot_line_present [OF Cons.prems(1) small Cons.prems(3)]
  obtain s1 where 1: "snapshot_line l s = Inr s1" and 2: "snap_wf s1"
    and 3: "present s1 ! k \<longleftrightarrow>
         present s ! k \<or> (core_prefix l \<and> 4 \<le> length (cpu_fields l) \<and> declared_index l = k)"
    by blast
  from Cons.IH [OF 2 rest Cons.prems(3)]
  obtain s' where 4: "snapshot_lines ls s1 = Inr s'" and 5: "snap_wf s'"
    and 6: "present s' ! k \<longleftrightarrow>
         present s1 ! k
         \<or> (\<exists>l \<in> set ls. core_prefix l \<and> 4 \<le> length (cpu_fields l) \<and> declared_index l = k)"
    by blast
  from 1 4 have "snapshot_lines (l # ls) s = Inr s'" by simp
  moreover from 3 6 have "present s' ! k \<longleftrightarrow>
         present s ! k
         \<or> (\<exists>l \<in> set (l # ls). core_prefix l \<and> 4 \<le> length (cpu_fields l) \<and> declared_index l = k)"
    by auto
  ultimately show ?case using 5 by blast
qed

lemma read_cpu_snapshot_present:
  assumes "\<forall>l \<in> set (fgets_all 1024 bytes). core_prefix l \<longrightarrow> declared_index l < 2 ^ 32"
    and "k < MAX_CORES"
  shows "\<exists>snap. read_cpu_snapshot (Some bytes) = Inr (0, snap)
    \<and> (present snap ! k \<longleftrightarrow>
         (\<exists>l \<in> set (fgets_all 1024 bytes).
            core_prefix l \<and> 4 \<le> length (cpu_fields l) \<and> declared_index l = k))"
proof -
  from assms(2) have z: "\<not> present zero_snap ! k" by (simp add: zero_snap_def)
  from snapshot_lines_present [OF zero_snap_wf assms] z
  obtain s' where "snapshot_lines (fgets_all 1024 bytes) zero_snap = Inr s'"
    and "present s' ! k \<longleftrightarrow>
         (\<exists>l \<in> set (fgets_all 1024 bytes).
            core_prefix l \<and> 4 \<le> length (cpu_fields l) \<and> declared_index l = k)"
    by blast
  then show ?thesis by (simp add: read_cpu_snapshot_def)
qed

text \<open>
  C8, as the code has it. In \<^verbatim>\<open>read_cpu_snapshot\<close> of util\_logger.c a core line (the
  prefix \<^verbatim>\<open>cpu\<close> followed by a decimal index) with at least four numeric fields and an
  index below \<^verbatim>\<open>MAX_CORES\<close> is stored at the slot equal to its index, and no other
  slot changes; a line without the prefix and index (the aggregate line among them) and a
  core line whose index is \<^verbatim>\<open>MAX_CORES\<close> or more, within the range of \<^verbatim>\<open>unsigned\<close>,
  leave the snapshot as it is; for every text the function returns a snapshot of
  \<^verbatim>\<open>MAX_CORES\<close> slots, so that no store is out of bounds; and a slot is present in the
  result exactly if some core line with at least four numeric fields declares its index.
\<close>

theorem core_line_stored_at_declared_index:
  "(snap_wf s \<longrightarrow> core_prefix l \<longrightarrow> declared_index l < MAX_CORES
      \<longrightarrow> 4 \<le> length (cpu_fields l) \<longrightarrow>
      (\<exists>s'. snapshot_line l s = Inr s' \<and> snap_wf s'
         \<and> present s' ! declared_index l
         \<and> total_arr s' ! declared_index l = foldl (+) 0 (cpu_fields l)
         \<and> idle_like s' ! declared_index l
             = cpu_fields l ! 3 + (if 5 \<le> length (cpu_fields l) then cpu_fields l ! 4 else 0)
         \<and> (\<forall>k. k \<noteq> declared_index l \<longrightarrow>
               present s' ! k = present s ! k \<and> total_arr s' ! k = total_arr s ! k
               \<and> idle_like s' ! k = idle_like s ! k)))
   \<and> (\<not> core_prefix l \<longrightarrow> snapshot_line l s = Inr s)
   \<and> (core_prefix l \<longrightarrow> MAX_CORES \<le> declared_index l \<longrightarrow> declared_index l < 2 ^ 32
        \<longrightarrow> snapshot_line l s = Inr s)
   \<and> (\<exists>snap. read_cpu_snapshot (Some bytes) = Inr (0, snap) \<and> snap_wf snap)
   \<and> ((\<forall>l \<in> set (fgets_all 1024 bytes). core_prefix l \<longrightarrow> declared_index l < 2 ^ 32)
        \<longrightarrow> k < MAX_CORES \<longrightarrow>
        (\<exists>snap. read_cpu_snapshot (Some bytes) = Inr (0, snap)
           \<and> (present snap ! k \<longleftrightarrow>
                (\<exists>l \<in> set (fgets_all 1024 bytes).
                   core_prefix l \<and> 4 \<le> length (cpu_fields l) \<and> declared_index l = k))))"
proof (intro conjI impI)
  assume wf: "snap_wf s" and cp: "core_prefix l"
    and idx: "declared_index l < MAX_CORES" and nf: "4 \<le> length (cpu_fields l)"
  from wf idx have b: "declared_index l < length (total_arr s)"
    "declared_index l < length (idle_like s)" "declared_index l < length (present s)"
    by (simp_all add: snap_wf_def)
  from wf have w': "snap_wf (s\<lparr>total_arr := (total_arr s)[declared_index l := foldl (+) 0 (cpu_fields l)],
           idle_like := (idle_like s)[declared_index l :=
              cpu_fields l ! 3 + (if 5 \<le> length (cpu_fields l) then cpu_fields l ! 4 else 0)],
           present := (present s)[declared_index l := True]\<rparr>)"
    by (simp add: snap_wf_def)
  show "\<exists>s'. snapshot_line l s = Inr s' \<and> snap_wf s'
         \<and> present s' ! declared_index l
         \<and> total_arr s' ! declared_index l = foldl (+) 0 (cpu_fields l)
         \<and> idle_like s' ! declared_index l
             = cpu_fields l ! 3 + (if 5 \<le> length (cpu_fields l) then cpu_fields l ! 4 else 0)
         \<and> (\<forall>k. k \<noteq> declared_index l \<longrightarrow>
               present s' ! k = present s ! k \<and> total_arr s' ! k = total_arr s ! k
               \<and> idle_like s' ! k = idle_like s ! k)"
    using snapshot_line_stores [OF wf cp idx nf] w' b by simp
next
  assume "\<not> core_prefix l"
  then show "snapshot_line l s = Inr s" by (simp add: snapshot_line_skips)
next
  assume "core_prefix l" "MAX_CORES \<le> declared_index l" "declared_index l < 2 ^ 32"
  then show "snapshot_line l s = Inr s" by (simp add: snapshot_line_skips)
next
  show "\<exists>snap. read_cpu_snapshot (Some bytes) = Inr (0, snap) \<and> snap_wf snap"
    by (rule read_cpu_snapshot_safe)
next
  assume "\<forall>l \<in> set (fgets_all 1024 bytes). core_prefix l \<longrightarrow> declared_index l < 2 ^ 32"
    and "k < MAX_CORES"
  then show "\<exists>snap. read_cpu_snapshot (Some bytes) = Inr (0, snap)
           \<and> (present snap ! k \<longleftrightarrow>
                (\<exists>l \<in> set (fgets_all 1024 bytes).
                   core_prefix l \<and> 4 \<le> length (cpu_fields l) \<and> declared_index l = k))"
    by (rule read_cpu_snapshot_present)
qed

theorem core_line_stored_at_declared_index_witness:
  "snap_wf zero_snap
   \<and> core_prefix ''cpu5 1 2 3 4\<newline>'' \<and> declared_index ''cpu5 1 2 3 4\<newline>'' = 5
   \<and> cpu_fields ''cpu5 1 2 3 4\<newline>'' = [1, 2, 3, 4]
   \<and> (\<exists>s'. snapshot_line ''cpu5 1 2 3 4\<newline>'' zero_snap = Inr s'
         \<and> present s' ! 5 \<and> total_arr s' ! 5 = 10 \<and> idle_like s' ! 5 = 4)
   \<and> \<not> core_prefix ''cpu  10 20 30 40 0 0 0 0 0 0\<newline>''
   \<and> snapshot_line ''cpu  10 20 30 40 0 0 0 0 0 0\<newline>'' zero_snap = Inr zero_snap
   \<and> core_prefix ''cpu9 1 2 3 4\<newline>'' \<and> declared_index ''cpu9 1 2 3 4\<newline>'' = 9
   \<and> snapshot_line ''cpu9 1 2 3 4\<newline>'' zero_snap = Inr zero_snap
   \<and> (\<exists>snap. read_cpu_snapshot (Some stat_mixed) = Inr (0, snap)
         \<and> present snap ! 5 \<and> \<not> present snap ! 3)"
proof -
  let ?l5 = "''cpu5 1 2 3 4\<newline>''" and ?agg = "''cpu  10 20 30 40 0 0 0 0 0 0\<newline>''"
  let ?l9 = "''cpu9 1 2 3 4\<newline>''"
  have wf: "snap_wf zero_snap" by code_simp
  have c5: "core_prefix ?l5" by code_simp
  have i5: "declared_index ?l5 = 5" by code_simp
  have f5: "cpu_fields ?l5 = [1, 2, 3, 4]" by code_simp
  have m5: "declared_index ?l5 < MAX_CORES" by code_simp
  have n5: "4 \<le> length (cpu_fields ?l5)" by code_simp
  have ca: "\<not> core_prefix ?agg" by code_simp
  have c9: "core_prefix ?l9" by code_simp
  have i9: "declared_index ?l9 = 9" by code_simp
  have m9: "MAX_CORES \<le> declared_index ?l9" by code_simp
  have s9: "declared_index ?l9 < 2 ^ 32" by (simp add: i9)
  have ls: "fgets_all 1024 stat_mixed = [?agg, ?l9, ''cpu3 1 2\<newline>'', ?l5]" by code_simp
  have i3: "declared_index ''cpu3 1 2\<newline>'' = 3" by code_simp
  have f3: "length (cpu_fields ''cpu3 1 2\<newline>'') = 2" by code_simp
  have c3: "core_prefix ''cpu3 1 2\<newline>''" by code_simp
  have all: "\<forall>l \<in> set (fgets_all 1024 stat_mixed). core_prefix l \<longrightarrow> declared_index l < 2 ^ 32"
    unfolding ls using i5 i9 i3 ca by simp
  have k5: "(5::nat) < MAX_CORES" and k3: "(3::nat) < MAX_CORES" by (simp_all add: MAX_CORES_def)
  note t5 = core_line_stored_at_declared_index [of zero_snap ?l5 stat_mixed 5]
  note t3 = core_line_stored_at_declared_index [of zero_snap ?l5 stat_mixed 3]
  note ta = core_line_stored_at_declared_index [of zero_snap ?agg stat_mixed 5]
  note t9 = core_line_stored_at_declared_index [of zero_snap ?l9 stat_mixed 5]
  from t5 wf c5 m5 n5 have a: "\<exists>s'. snapshot_line ?l5 zero_snap = Inr s'
         \<and> present s' ! 5 \<and> total_arr s' ! 5 = 10 \<and> idle_like s' ! 5 = 4"
    by (auto simp add: i5 f5)
  from ta ca have b: "snapshot_line ?agg zero_snap = Inr zero_snap" by blast
  from t9 c9 m9 s9 have c: "snapshot_line ?l9 zero_snap = Inr zero_snap" by blast
  from t5 all k5 obtain snap where r: "read_cpu_snapshot (Some stat_mixed) = Inr (0, snap)"
    and p5: "present snap ! 5 \<longleftrightarrow>
                (\<exists>l \<in> set (fgets_all 1024 stat_mixed).
                   core_prefix l \<and> 4 \<le> length (cpu_fields l) \<and> declared_index l = 5)"
    by blast
  from t3 all k3 obtain snap' where r': "read_cpu_snapshot (Some stat_mixed) = Inr (0, snap')"
    and p3: "present snap' ! 3 \<longleftrightarrow>
                (\<exists>l \<in> set (fgets_all 1024 stat_mixed).
                   core_prefix l \<and> 4 \<le> length (cpu_fields l) \<and> declared_index l = 3)"
    by blast
  from r r' have same: "snap' = snap" by simp
  from p5 c5 n5 i5 have q5: "present snap ! 5" unfolding ls by simp
  from p3 same have q3: "\<not> present snap ! 3" unfolding ls using i5 i9 i3 f3 ca by simp
  from r q5 q3 have d: "\<exists>snap. read_cpu_snapshot (Some stat_mixed) = Inr (0, snap)
         \<and> present snap ! 5 \<and> \<not> present snap ! 3" by blast
  from wf c5 i5 f5 a ca b c9 i9 c d show ?thesis by blast
qed


text \<open>
  C8, as the claim has it, fails: the core line \<^verbatim>\<open>cpu3 1 2\<close> declares index 3 and is
  not stored, since \<^verbatim>\<open>read_cpu_snapshot\<close> skips a line with fewer than four numeric
  fields; and \<^verbatim>\<open>get_cpu_core_times\<close> of log.c stores the line that declares index 3 at
  position 2, the third core line of the file.
\<close>

theorem short_core_line_is_not_stored:
  "core_prefix ''cpu3 1 2\<newline>''
   \<and> declared_index ''cpu3 1 2\<newline>'' = 3
   \<and> read_cpu_snapshot (Some ''cpu3 1 2\<newline>'') = Inr (0, zero_snap)
   \<and> \<not> present zero_snap ! 3
   \<and> core_prefix ''cpu3 13 0 0 93 0 0 0 0\<newline>''
   \<and> declared_index ''cpu3 13 0 0 93 0 0 0 0\<newline>'' = 3
   \<and> get_cpu_core_times (Some stat_gap)
       = (3, Some [parse_core_line ''cpu0 10 0 0 90 0 0 0 0\<newline>'',
                   parse_core_line ''cpu1 11 0 0 91 0 0 0 0\<newline>'',
                   parse_core_line ''cpu3 13 0 0 93 0 0 0 0\<newline>''])"
  by code_simp

section \<open>The success flag of a parsed line\<close>

lemma fill_cores_general:
  "i + length (filter core_prefix ls) \<le> length arr \<Longrightarrow>
   fill_cores ls i arr =
     take i arr @ map parse_core_line (filter core_prefix ls)
       @ drop (i + length (filter core_prefix ls)) arr"
proof (induction ls arbitrary: i arr)
  case Nil
  then show ?case by simp
next
  case (Cons l ls)
  show ?case
  proof (cases "core_prefix l")
    case True
    with Cons.prems have i: "i < length arr" by simp
    from True Cons.prems
    have "Suc i + length (filter core_prefix ls) \<le> length (arr[i := parse_core_line l])"
      by simp
    from Cons.IH [OF this] True i show ?thesis
      by (simp add: take_Suc_conv_app_nth)
  next
    case False
    with Cons.prems have p: "i + length (filter core_prefix ls) \<le> length arr" by simp
    show ?thesis
    proof (cases "i < length arr")
      case True
      with False Cons.IH [OF p] show ?thesis by simp
    next
      case False
      with p have "length (filter core_prefix ls) = 0" and "i = length arr" by linarith+
      then have "filter core_prefix ls = []" and "i = length arr" by simp_all
      with \<open>\<not> core_prefix l\<close> show ?thesis by simp
    qed
  qed
qed

lemma fill_cores_zero:
  "fill_cores ls 0 (replicate (length (filter core_prefix ls)) z)
     = map parse_core_line (filter core_prefix ls)"
  by (simp add: fill_cores_general)


text \<open>
  C5, as the code has it. \<^verbatim>\<open>get_cpu_core_times\<close> of log.c returns one sample for each
  core line, in the order of the lines, and the success flag of a sample is set if and only
  if \<^verbatim>\<open>sscanf\<close> parsed at least 8 numeric fields after the label of its line; a core line
  with fewer than 8 numeric fields gives a sample marked as not parsed.
  \<^verbatim>\<open>read_cpu_snapshot\<close> of util\_logger.c marks the slot of a core line, with an index
  below \<^verbatim>\<open>MAX_CORES\<close>, as present if and only if at least 4 numeric fields parsed.
\<close>

theorem success_flag_iff_eight_fields:
  "(cores = filter core_prefix (fgets_all 512 bytes) \<longrightarrow> (\<forall>l \<in> set cores. label_fits l)
      \<longrightarrow> i < length cores \<longrightarrow>
      get_cpu_core_times (Some bytes) = (int (length cores), Some (map parse_core_line cores))
      \<and> (successfully_parsed (map parse_core_line cores ! i) \<noteq> 0
           \<longleftrightarrow> 8 \<le> length (numeric_fields (cores ! i)))
      \<and> (length (numeric_fields (cores ! i)) < 8
           \<longrightarrow> successfully_parsed (map parse_core_line cores ! i) = 0))
   \<and> (snap_wf s \<longrightarrow> core_prefix l \<longrightarrow> declared_index l < MAX_CORES
        \<longrightarrow> \<not> present s ! declared_index l \<longrightarrow>
        (\<exists>s'. snapshot_line l s = Inr s'
           \<and> (present s' ! declared_index l \<longleftrightarrow> 4 \<le> length (cpu_fields l))))"
proof (intro conjI impI)
  assume c: "cores = filter core_prefix (fgets_all 512 bytes)" and i: "i < length cores"
  from i have ne: "length cores \<noteq> 0" by (cases cores) simp_all
  show "get_cpu_core_times (Some bytes) = (int (length cores), Some (map parse_core_line cores))"
    using ne unfolding get_cpu_core_times_def Let_def c
    by (simp add: fill_cores_zero)
  from i have m: "map parse_core_line cores ! i = parse_core_line (cores ! i)" by simp
  show "successfully_parsed (map parse_core_line cores ! i) \<noteq> 0
           \<longleftrightarrow> 8 \<le> length (numeric_fields (cores ! i))"
    unfolding m by (simp add: parse_core_line_def Let_def)
  assume "length (numeric_fields (cores ! i)) < 8"
  then show "successfully_parsed (map parse_core_line cores ! i) = 0"
    unfolding m by (simp add: parse_core_line_def Let_def)
next
  assume wf: "snap_wf s" and cp: "core_prefix l" and idx: "declared_index l < MAX_CORES"
    and np: "\<not> present s ! declared_index l"
  from idx have small: "core_prefix l \<longrightarrow> declared_index l < 2 ^ 32"
    by (simp add: MAX_CORES_def)
  from snapshot_line_present [OF wf small idx] cp np
  show "\<exists>s'. snapshot_line l s = Inr s'
           \<and> (present s' ! declared_index l \<longleftrightarrow> 4 \<le> length (cpu_fields l))"
    by auto
qed

theorem success_flag_iff_eight_fields_witness:
  "filter core_prefix (fgets_all 512 stat_text)
     = [''cpu0 1 2 3 4 5 6 7 8 9 10\<newline>'', ''cpu1 1 2 3 4 5 6 7\<newline>'']
   \<and> get_cpu_core_times (Some stat_text)
     = (2, Some [parse_core_line ''cpu0 1 2 3 4 5 6 7 8 9 10\<newline>'',
                 parse_core_line ''cpu1 1 2 3 4 5 6 7\<newline>''])
   \<and> length (numeric_fields ''cpu0 1 2 3 4 5 6 7 8 9 10\<newline>'') = 10
   \<and> successfully_parsed (parse_core_line ''cpu0 1 2 3 4 5 6 7 8 9 10\<newline>'') \<noteq> 0
   \<and> length (numeric_fields ''cpu1 1 2 3 4 5 6 7\<newline>'') = 7
   \<and> successfully_parsed (parse_core_line ''cpu1 1 2 3 4 5 6 7\<newline>'') = 0
   \<and> snap_wf zero_snap \<and> core_prefix ''cpu5 1 2 3 4\<newline>''
   \<and> declared_index ''cpu5 1 2 3 4\<newline>'' = 5 \<and> present zero_snap ! 5 = False
   \<and> length (cpu_fields ''cpu5 1 2 3 4\<newline>'') = 4
   \<and> (\<exists>s'. snapshot_line ''cpu5 1 2 3 4\<newline>'' zero_snap = Inr s' \<and> present s' ! 5)"
proof -
  let ?cores = "[''cpu0 1 2 3 4 5 6 7 8 9 10\<newline>'', ''cpu1 1 2 3 4 5 6 7\<newline>'']"
  let ?l5 = "''cpu5 1 2 3 4\<newline>''"
  have c: "?cores = filter core_prefix (fgets_all 512 stat_text)" by code_simp
  have f: "\<forall>l \<in> set ?cores. label_fits l" by code_simp
  have n0: "length (numeric_fields ''cpu0 1 2 3 4 5 6 7 8 9 10\<newline>'') = 10" by code_simp
  have n1: "length (numeric_fields ''cpu1 1 2 3 4 5 6 7\<newline>'') = 7" by code_simp
  have wf: "snap_wf zero_snap" by code_simp
  have c5: "core_prefix ?l5" by code_simp
  have i5: "declared_index ?l5 = 5" by code_simp
  have m5: "declared_index ?l5 < MAX_CORES" by code_simp
  have p5: "present zero_snap ! 5 = False" by code_simp
  have n5: "length (cpu_fields ?l5) = 4" by code_simp
  note t0 = success_flag_iff_eight_fields [of ?cores stat_text 0 zero_snap ?l5]
  note t1 = success_flag_iff_eight_fields [of ?cores stat_text 1 zero_snap ?l5]
  have i0: "0 < length ?cores" and i1: "1 < length ?cores" by simp_all
  from t0 c f i0 have a0: "get_cpu_core_times (Some stat_text)
        = (int (length ?cores), Some (map parse_core_line ?cores))"
    and b0: "successfully_parsed (map parse_core_line ?cores ! 0) \<noteq> 0
           \<longleftrightarrow> 8 \<le> length (numeric_fields (?cores ! 0))"
    by blast+
  from t1 c f i1 have b1: "successfully_parsed (map parse_core_line ?cores ! 1) \<noteq> 0
           \<longleftrightarrow> 8 \<le> length (numeric_fields (?cores ! 1))"
    by blast
  from a0 have a0': "get_cpu_core_times (Some stat_text)
     = (2, Some [parse_core_line ''cpu0 1 2 3 4 5 6 7 8 9 10\<newline>'',
                 parse_core_line ''cpu1 1 2 3 4 5 6 7\<newline>''])"
    by simp
  from b0 n0 have b0': "successfully_parsed (parse_core_line ''cpu0 1 2 3 4 5 6 7 8 9 10\<newline>'') \<noteq> 0"
    by simp
  from b1 n1 have b1': "successfully_parsed (parse_core_line ''cpu1 1 2 3 4 5 6 7\<newline>'') = 0"
    by simp
  from t0 wf c5 m5 p5 have "\<exists>s'. snapshot_line ?l5 zero_snap = Inr s'
           \<and> (present s' ! declared_index ?l5 \<longleftrightarrow> 4 \<le> length (cpu_fields ?l5))"
    unfolding i5 by blast
  then have a5: "\<exists>s'. snapshot_line ?l5 zero_snap = Inr s' \<and> present s' ! 5"
    unfolding i5 n5 by simp
  from c have c': "filter core_prefix (fgets_all 512 stat_text) = ?cores" by (rule sym)
  from c' a0' n0 b0' n1 b1' wf c5 i5 p5 n5 a5 show ?thesis by blast
qed

text \<open>
  C5, as the claim has it, fails in util\_logger.c: the core line \<^verbatim>\<open>cpu5 1 2 3 4\<close> has
  four numeric fields and its slot is marked present.
\<close>

theorem four_fields_mark_a_line_present:
  "core_prefix ''cpu5 1 2 3 4\<newline>''
   \<and> length (cpu_fields ''cpu5 1 2 3 4\<newline>'') = 4
   \<and> read_cpu_snapshot (Some ''cpu5 1 2 3 4\<newline>'')
       = Inr (0, zero_snap\<lparr>total_arr := (total_arr zero_snap)[5 := 10],
                            idle_like := (idle_like zero_snap)[5 := 4],
                            present := (present zero_snap)[5 := True]\<rparr>)
   \<and> (present zero_snap)[5 := True] ! 5"
  by code_simp

section \<open>The order and the filter of discovery\<close>

lemma scan_cpus_loop_eq:
  "length acc \<le> MAX_CPUS \<Longrightarrow>
   scan_cpus_loop fs es acc
     = acc @ map cpu_entry (take (MAX_CPUS - length acc) (filter (cpu_qualifies fs) es))"
proof (induction es arbitrary: acc)
  case Nil
  then show ?case by simp
next
  case (Cons e es)
  show ?case
  proof (cases "length acc < MAX_CPUS")
    case False
    with Cons.prems have "MAX_CPUS - length acc = 0" by simp
    with False show ?thesis by simp
  next
    case True
    show ?thesis
    proof (cases "cpu_qualifies fs e")
      case False
      with True Cons.IH [OF Cons.prems] show ?thesis
        by (auto simp add: cpu_qualifies_def)
    next
      case q: True
      from True have l: "length (acc @ [cpu_entry e]) \<le> MAX_CPUS" by simp
      from True obtain k where k: "MAX_CPUS - length acc = Suc k"
        by (cases "MAX_CPUS - length acc") auto
      then have k': "MAX_CPUS - length (acc @ [cpu_entry e]) = k" by simp
      from q True Cons.IH [OF l] show ?thesis
        unfolding k' by (simp add: cpu_qualifies_def cpu_entry_def k)
    qed
  qed
qed

lemma read_string_file_length:
  "read_string_file fs p 64 = Some t \<Longrightarrow> length t < 64"
proof -
  assume a: "read_string_file fs p 64 = Some t"
  have c: "length (c_str b) \<le> length b" for b
    unfolding c_str_def by (rule length_takeWhile_le)
  from a obtain bytes where b: "file_bytes fs p = Some bytes"
    by (auto simp add: read_string_file_def split: option.splits)
  let ?buf = "take (min (length bytes) 63) bytes"
  from a b have t: "t = c_str (if last ?buf = CHR 0x0A then butlast ?buf else ?buf)"
    by (auto simp add: read_string_file_def Let_def split: if_splits)
  have "length (if last ?buf = CHR 0x0A then butlast ?buf else ?buf) \<le> 63" by auto
  with c [of "if last ?buf = CHR 0x0A then butlast ?buf else ?buf"] t show ?thesis by simp
qed

lemma scan_thermal_loop_eq:
  "length acc \<le> MAX_THERMAL_ZONES \<Longrightarrow>
   \<forall>e \<in> set es. zone_qualifies fs e \<longrightarrow> length e < 32 \<Longrightarrow>
   scan_thermal_loop fs es acc
     = Inr (acc @ map (zone_entry fs)
                    (take (MAX_THERMAL_ZONES - length acc) (filter (zone_qualifies fs) es)))"
proof (induction es arbitrary: acc)
  case Nil
  then show ?case by simp
next
  case (Cons e es)
  from Cons.prems(2) have rest: "\<forall>e \<in> set es. zone_qualifies fs e \<longrightarrow> length e < 32" by simp
  show ?case
  proof (cases "length acc < MAX_THERMAL_ZONES")
    case False
    with Cons.prems have "MAX_THERMAL_ZONES - length acc = 0" by simp
    with False show ?thesis by simp
  next
    case True
    show ?thesis
    proof (cases "zone_qualifies fs e")
      case False
      with True Cons.IH [OF Cons.prems(1) rest] show ?thesis
        by (auto simp add: zone_qualifies_def zone_type_def split: option.splits)
    next
      case q: True
      then obtain t where t: "read_string_file fs (zone_type_path e) 64 = Some t"
        and m: "strstr t ''cpu'' \<or> strstr t ''CPU''" and p: "take 12 e = ''thermal_zone''"
        by (auto simp add: zone_qualifies_def zone_type_def split: option.splits)
      from t have tl: "length t < 64" by (rule read_string_file_length)
      from q Cons.prems(2) have el: "length e < 32" by simp
      have ze: "zone_entry fs e = \<lparr>zone_name = e, type_name = t, temp_path = zone_temp_path e\<rparr>"
        by (simp add: zone_entry_def zone_type_def t)
      from True have l: "length (acc @ [zone_entry fs e]) \<le> MAX_THERMAL_ZONES" by simp
      from True obtain k where k: "MAX_THERMAL_ZONES - length acc = Suc k"
        by (cases "MAX_THERMAL_ZONES - length acc") auto
      then have k': "MAX_THERMAL_ZONES - length (acc @ [zone_entry fs e]) = k" by simp
      from q True Cons.IH [OF l rest] show ?thesis
        unfolding k' using t m p tl el by (simp add: strcpy_into_def ze k)
    qed
  qed
qed


lemma scan_cpus_eq:
  "dir_entries fs CPU_DIR = Some ces \<Longrightarrow>
   scan_cpus fs = map cpu_entry (take MAX_CPUS (filter (cpu_qualifies fs) ces))"
  using scan_cpus_loop_eq [of "[]" fs ces] by (simp add: scan_cpus_def)

lemma scan_thermal_zones_eq:
  "dir_entries fs THERMAL_DIR = Some tes \<Longrightarrow>
   \<forall>e \<in> set tes. zone_qualifies fs e \<longrightarrow> length e < 32 \<Longrightarrow>
   scan_thermal_zones fs
     = Inr (map (zone_entry fs) (take MAX_THERMAL_ZONES (filter (zone_qualifies fs) tes)))"
  using scan_thermal_loop_eq [of "[]" tes fs] by (simp add: scan_thermal_zones_def)

lemma scan_cpus_sorted:
  assumes "dir_entries fs CPU_DIR = Some ces"
    and "sorted (map (\<lambda>e. atoi (drop 3 e)) (filter (cpu_qualifies fs) ces))"
  shows "sorted (map cpu_num (scan_cpus fs))"
proof -
  have "map cpu_num (scan_cpus fs)
      = take MAX_CPUS (map (\<lambda>e. atoi (drop 3 e)) (filter (cpu_qualifies fs) ces))"
    by (simp add: scan_cpus_eq [OF assms(1)] take_map cpu_entry_def comp_def)
  with assms(2) show ?thesis by (simp add: sorted_wrt_take)
qed

text \<open>
  C6, as the code has it. \<^verbatim>\<open>scan_cpus\<close> and \<^verbatim>\<open>scan_thermal_zones\<close> keep the order in
  which \<^verbatim>\<open>readdir\<close> delivers the names: the result is the list of the names that pass
  the tests, in that order, cut after 128 entries, so that it is a function of the
  enumerated sequence and is ascending where the enumeration is. Neither function sorts.
  On the layout with cores 0, 1 and 3 and one thermal zone of type \<open>cpu-thermal\<close>,
  enumerated in ascending order, the columns are cpu0, cpu1, cpu3, cpu-thermal.
\<close>

theorem discovery_follows_enumeration_order:
  "(dir_entries fs CPU_DIR = Some ces \<longrightarrow>
      scan_cpus fs = map cpu_entry (take MAX_CPUS (filter (cpu_qualifies fs) ces)))
   \<and> (dir_entries fs THERMAL_DIR = Some tes \<longrightarrow>
        (\<forall>e \<in> set tes. zone_qualifies fs e \<longrightarrow> length e < 32) \<longrightarrow>
        scan_thermal_zones fs
          = Inr (map (zone_entry fs) (take MAX_THERMAL_ZONES (filter (zone_qualifies fs) tes))))
   \<and> (dir_entries fs CPU_DIR = Some ces \<longrightarrow>
        sorted (map (\<lambda>e. atoi (drop 3 e)) (filter (cpu_qualifies fs) ces)) \<longrightarrow>
        sorted (map cpu_num (scan_cpus fs)))
   \<and> scan_thermal_zones layout_ascending = Inr [zone_cpu_thermal]
   \<and> header_columns (scan_cpus layout_ascending) [zone_cpu_thermal]
       = [CpuFreq 0, CpuFreq 1, CpuFreq 3, ThermalZone ''cpu-thermal'']"
proof (intro conjI impI)
  assume "dir_entries fs CPU_DIR = Some ces"
  then show "scan_cpus fs = map cpu_entry (take MAX_CPUS (filter (cpu_qualifies fs) ces))"
    by (rule scan_cpus_eq)
next
  assume "dir_entries fs THERMAL_DIR = Some tes"
    and "\<forall>e \<in> set tes. zone_qualifies fs e \<longrightarrow> length e < 32"
  then show "scan_thermal_zones fs
          = Inr (map (zone_entry fs) (take MAX_THERMAL_ZONES (filter (zone_qualifies fs) tes)))"
    by (rule scan_thermal_zones_eq)
next
  assume "dir_entries fs CPU_DIR = Some ces"
    and "sorted (map (\<lambda>e. atoi (drop 3 e)) (filter (cpu_qualifies fs) ces))"
  then show "sorted (map cpu_num (scan_cpus fs))"
    by (rule scan_cpus_sorted)
next
  show "scan_thermal_zones layout_ascending = Inr [zone_cpu_thermal]" by code_simp
next
  show "header_columns (scan_cpus layout_ascending) [zone_cpu_thermal]
       = [CpuFreq 0, CpuFreq 1, CpuFreq 3, ThermalZone ''cpu-thermal'']" by code_simp
qed

theorem discovery_follows_enumeration_order_witness:
  "dir_entries layout_shuffled CPU_DIR
     = Some [''cpuidle'', ''cpu3'', ''.'', ''cpu0'', ''cpufreq'', ''..'', ''cpu1'']
   \<and> filter (cpu_qualifies layout_shuffled)
        [''cpuidle'', ''cpu3'', ''.'', ''cpu0'', ''cpufreq'', ''..'', ''cpu1'']
       = [''cpu3'', ''cpu0'', ''cpu1'']
   \<and> scan_cpus layout_shuffled = map cpu_entry [''cpu3'', ''cpu0'', ''cpu1'']
   \<and> dir_entries layout_ascending THERMAL_DIR
       = Some [''.'', ''..'', ''cooling_device0'', ''thermal_zone0'']
   \<and> scan_thermal_zones layout_ascending = Inr [zone_entry layout_ascending ''thermal_zone0'']
   \<and> sorted (map cpu_num (scan_cpus layout_ascending))"
proof -
  let ?ces = "[''cpuidle'', ''cpu3'', ''.'', ''cpu0'', ''cpufreq'', ''..'', ''cpu1'']"
  let ?asc = "[''.'', ''..'', ''cpu0'', ''cpu1'', ''cpu3'', ''cpufreq'', ''cpuidle'']"
  let ?tes = "[''.'', ''..'', ''cooling_device0'', ''thermal_zone0'']"
  have d: "dir_entries layout_shuffled CPU_DIR = Some ?ces" by code_simp
  have f: "filter (cpu_qualifies layout_shuffled) ?ces = [''cpu3'', ''cpu0'', ''cpu1'']"
    by code_simp
  have da: "dir_entries layout_ascending CPU_DIR = Some ?asc" by code_simp
  have fa: "filter (cpu_qualifies layout_ascending) ?asc = [''cpu0'', ''cpu1'', ''cpu3'']"
    by code_simp
  have sa: "sorted (map (\<lambda>e. atoi (drop 3 e)) [''cpu0'', ''cpu1'', ''cpu3''])" by code_simp
  have sa': "sorted (map (\<lambda>e. atoi (drop 3 e)) (filter (cpu_qualifies layout_ascending) ?asc))"
    unfolding fa by (rule sa)
  have t: "dir_entries layout_ascending THERMAL_DIR = Some ?tes" by code_simp
  have tf: "filter (zone_qualifies layout_ascending) ?tes = [''thermal_zone0'']" by code_simp
  have tl: "\<forall>e \<in> set ?tes. zone_qualifies layout_ascending e \<longrightarrow> length e < 32" by simp
  have tk3: "take MAX_CPUS [''cpu3'', ''cpu0'', ''cpu1''] = [''cpu3'', ''cpu0'', ''cpu1'']"
    by (simp add: MAX_CPUS_def)
  have tk1: "take MAX_THERMAL_ZONES [''thermal_zone0''] = [''thermal_zone0'']"
    by (simp add: MAX_THERMAL_ZONES_def)
  note a = discovery_follows_enumeration_order [of layout_shuffled ?ces ?tes]
  note b = discovery_follows_enumeration_order [of layout_ascending ?asc ?tes]
  from a d have "scan_cpus layout_shuffled
      = map cpu_entry (take MAX_CPUS (filter (cpu_qualifies layout_shuffled) ?ces))"
    by blast
  then have 1: "scan_cpus layout_shuffled = map cpu_entry [''cpu3'', ''cpu0'', ''cpu1'']"
    unfolding f tk3 .
  from b t tl have "scan_thermal_zones layout_ascending
      = Inr (map (zone_entry layout_ascending)
               (take MAX_THERMAL_ZONES (filter (zone_qualifies layout_ascending) ?tes)))"
    by blast
  then have 2: "scan_thermal_zones layout_ascending
      = Inr [zone_entry layout_ascending ''thermal_zone0'']"
    unfolding tf tk1 by simp
  from b da sa' have 3: "sorted (map cpu_num (scan_cpus layout_ascending))"
    by blast
  from d f 1 t 2 3 show ?thesis by blast
qed

text \<open>
  C6, as the claim has it, fails: the same directory enumerated in another order gives the
  cores in the order 3, 0, 1, which is not ascending and differs from the result for the
  ascending enumeration.
\<close>

theorem discovery_is_not_sorted:
  "map cpu_num (scan_cpus layout_shuffled) = [3, 0, 1]
   \<and> \<not> sorted (map cpu_num (scan_cpus layout_shuffled))
   \<and> set (the (dir_entries layout_shuffled CPU_DIR))
       = set (the (dir_entries layout_ascending CPU_DIR))
   \<and> dir_entries layout_shuffled THERMAL_DIR = dir_entries layout_ascending THERMAL_DIR
   \<and> map cpu_num (scan_cpus layout_ascending) = [0, 1, 3]
   \<and> header_columns (scan_cpus layout_shuffled) [zone_cpu_thermal]
       = [CpuFreq 3, CpuFreq 0, CpuFreq 1, ThermalZone ''cpu-thermal'']"
proof -
  have 1: "map cpu_num (scan_cpus layout_shuffled) = [3, 0, 1]" by code_simp
  have 2: "\<not> sorted (map cpu_num (scan_cpus layout_shuffled))" unfolding 1 by simp
  have s: "the (dir_entries layout_shuffled CPU_DIR)
      = [''cpuidle'', ''cpu3'', ''.'', ''cpu0'', ''cpufreq'', ''..'', ''cpu1'']" by code_simp
  have a: "the (dir_entries layout_ascending CPU_DIR)
      = [''.'', ''..'', ''cpu0'', ''cpu1'', ''cpu3'', ''cpufreq'', ''cpuidle'']" by code_simp
  have 3: "set (the (dir_entries layout_shuffled CPU_DIR))
       = set (the (dir_entries layout_ascending CPU_DIR))"
    unfolding s a by auto
  have 4: "dir_entries layout_shuffled THERMAL_DIR = dir_entries layout_ascending THERMAL_DIR"
    by code_simp
  have 5: "map cpu_num (scan_cpus layout_ascending) = [0, 1, 3]" by code_simp
  have 6: "header_columns (scan_cpus layout_shuffled) [zone_cpu_thermal]
       = [CpuFreq 3, CpuFreq 0, CpuFreq 1, ThermalZone ''cpu-thermal'']" by code_simp
  from 1 2 3 4 5 6 show ?thesis by blast
qed

text \<open>
  C7. The claim: a thermal zone is included if and only if its type contains \<open>cpu\<close>
  compared without regard to case. \<^verbatim>\<open>scan_thermal_zones\<close> tests for the two spellings
  \<^verbatim>\<open>cpu\<close> and \<^verbatim>\<open>CPU\<close> only: a zone of type \<open>Cpu-thermal\<close> or \<open>cPu\<close> is left out,
  where zones of type \<open>cpu-thermal\<close> and \<open>CPU-therm\<close> are included.
\<close>

theorem mixed_case_zone_is_dropped:
  "spec_type_matches ''Cpu-thermal''
   \<and> scan_thermal_zones (fake_fs [''cpu0''] [''thermal_zone0''] ''Cpu-thermal\<newline>'') = Inr []
   \<and> spec_type_matches ''cPu''
   \<and> scan_thermal_zones (fake_fs [''cpu0''] [''thermal_zone0''] ''cPu\<newline>'') = Inr []
   \<and> scan_thermal_zones (fake_fs [''cpu0''] [''thermal_zone0''] ''cpu-thermal\<newline>'')
       = Inr [zone_cpu_thermal]
   \<and> scan_thermal_zones (fake_fs [''cpu0''] [''thermal_zone0''] ''CPU-therm\<newline>'')
       = Inr [zone_cpu_thermal\<lparr>type_name := ''CPU-therm''\<rparr>]"
  by code_simp

section \<open>The anchor of the sampling loop\<close>

lemma run_ticks_anchor:
  "anchor (run_ticks s ws) = (anchor s)\<lparr>tv_sec := tv_sec (anchor s) + int (length ws)\<rparr>"
proof (induction ws arbitrary: s)
  case Nil
  then show ?case by simp
next
  case (Cons w ws)
  show ?case by (simp add: Cons.IH tick_def Let_def)
qed

lemma run_ticks_rows: "rows (run_ticks s ws) = rows s + length ws"
  by (induction ws arbitrary: s) (simp_all add: tick_def Let_def)

lemma ns_of_advance: "ns_of (ts\<lparr>tv_sec := tv_sec ts + k\<rparr>) = ns_of ts + k * 1000000000"
  by (simp add: ns_of_def algebra_simps)

lemma run_ticks_blocks:
  "ns_of (anchor s) \<le> now s \<Longrightarrow> ns_of (anchor (run_ticks s ws)) \<le> now (run_ticks s ws)"
proof (induction ws arbitrary: s)
  case Nil
  then show ?case by simp
next
  case (Cons w ws)
  have "ns_of (anchor (tick s w)) \<le> now (tick s w)"
    by (simp add: tick_def Let_def clock_nanosleep_abs_def)
  from Cons.IH [OF this] show ?case by simp
qed

lemma run_ticks_no_drift:
  "now s = ns_of (anchor s) \<Longrightarrow> \<forall>w \<in> set ws. int w \<le> 1000000000 \<Longrightarrow>
   now (run_ticks s ws) = ns_of (anchor (run_ticks s ws))"
proof (induction ws arbitrary: s)
  case Nil
  then show ?case by simp
next
  case (Cons w ws)
  from Cons.prems have w: "int w \<le> 1000000000" by simp
  with Cons.prems(1) have "now (tick s w) = ns_of (anchor (tick s w))"
    by (simp add: tick_def Let_def clock_nanosleep_abs_def ns_of_def max_def)
  moreover from Cons.prems have "\<forall>w \<in> set ws. int w \<le> 1000000000" by simp
  ultimately show ?case using Cons.IH by simp
qed

lemma tick_lateness:
  "now (tick s w) - ns_of (anchor (tick s w))
     \<le> max 0 (now s - ns_of (anchor s)) + int (w - 1000000000)"
proof -
  have "int w - 1000000000 \<le> int (w - 1000000000)" by linarith
  moreover have "0 \<le> int (w - 1000000000)" by simp
  ultimately show ?thesis
    by (simp add: tick_def Let_def clock_nanosleep_abs_def ns_of_def max_def)
qed

lemma run_ticks_lateness:
  "now (run_ticks s ws) - ns_of (anchor (run_ticks s ws))
     \<le> max 0 (now s - ns_of (anchor s)) + int (\<Sum>w \<leftarrow> ws. w - 1000000000)"
proof (induction ws arbitrary: s)
  case Nil
  then show ?case by simp
next
  case (Cons w ws)
  have "now (run_ticks (tick s w) ws) - ns_of (anchor (run_ticks (tick s w) ws))
      \<le> max 0 (now (tick s w) - ns_of (anchor (tick s w))) + int (\<Sum>w \<leftarrow> ws. w - 1000000000)"
    by (rule Cons.IH)
  also have "max 0 (now (tick s w) - ns_of (anchor (tick s w)))
      \<le> max 0 (now s - ns_of (anchor s)) + int (w - 1000000000)"
    using tick_lateness [of s w] by simp
  finally show ?case by simp
qed

text \<open>
  The relative sleeps of util\_logger.c and log.c: the time after \<open>N\<close> iterations is the
  start plus \<open>N\<close> intervals plus all the work done.
\<close>

lemma int_times_small:
  assumes "0 \<le> a" and "a \<le> 2147483"
  shows "int_times a 1000 = a * 1000"
proof -
  from assms have "- (2 ^ 31) \<le> a * 1000" and "a * 1000 < 2 ^ 31" by simp_all
  then have "signed_take_bit 31 (a * 1000) = a * 1000"
    by (rule signed_take_bit_int_eq_self)
  then show ?thesis unfolding int_times_def by (subst signed_of_int) simp
qed

lemma msleep_exact_seconds:
  "0 \<le> a \<Longrightarrow> msleep_exact (a * 1000) t = t + a * 1000000000"
  by (simp add: msleep_exact_def)

lemma run_relative_drift:
  assumes "0 \<le> interval_sec" and "interval_sec \<le> 2147483"
  shows "run_relative interval_sec t ws
     = t + int (length ws) * (interval_sec * 1000000000) + int (sum_list ws)"
proof (induction ws arbitrary: t)
  case Nil
  then show ?case by simp
next
  case (Cons w ws)
  have "msleep_exact (int_times interval_sec 1000) t = t + interval_sec * 1000000000"
    using assms by (simp add: int_times_small msleep_exact_seconds)
  with Cons.IH show ?case by (simp add: algebra_simps)
qed

lemma run_sleep_one_drift:
  "run_sleep_one t ws = t + int (length ws) * 1000000000 + int (sum_list ws)"
  by (induction ws arbitrary: t) (simp_all add: algebra_simps)

text \<open>
  C9, as the code has it. In the loop of logger.c (and of combined\_gpu\_logger.c and
  cpu\_logger.c) the anchor after \<open>N\<close> iterations is the start time plus exactly \<open>N\<close>
  seconds, whatever the work of the iterations took; each iteration ends at the later of
  its anchor and the end of its work, so the loop blocks until the anchor and never wakes
  before it; the loop is late by at most the sum of the overruns, the parts of the work
  that exceed one interval; and where the work of each iteration fits into the interval,
  every iteration ends exactly at its anchor. The loops of util\_logger.c and log.c keep no
  anchor: they sleep one interval after the other and are late by all the work done.
\<close>

theorem anchor_advances_by_fixed_intervals:
  "anchor (run_ticks (sched_start t0) ws) = t0\<lparr>tv_sec := tv_sec t0 + int (length ws)\<rparr>
   \<and> ns_of (anchor (run_ticks (sched_start t0) ws)) = ns_of t0 + int (length ws) * 1000000000
   \<and> rows (run_ticks (sched_start t0) ws) = length ws
   \<and> ns_of (anchor (run_ticks (sched_start t0) ws)) \<le> now (run_ticks (sched_start t0) ws)
   \<and> now (tick s w) = max (now s + int w) (ns_of (anchor (tick s w)))
   \<and> now (run_ticks (sched_start t0) ws)
       \<le> ns_of t0 + int (length ws) * 1000000000 + int (\<Sum>w \<leftarrow> ws. w - 1000000000)
   \<and> ((\<forall>w \<in> set ws. int w \<le> 1000000000) \<longrightarrow>
        now (run_ticks (sched_start t0) ws) = ns_of t0 + int (length ws) * 1000000000)
   \<and> (0 \<le> interval_sec \<longrightarrow> interval_sec \<le> 2147483 \<longrightarrow>
        run_relative interval_sec t ws
          = t + int (length ws) * (interval_sec * 1000000000) + int (sum_list ws))
   \<and> run_sleep_one t ws = t + int (length ws) * 1000000000 + int (sum_list ws)"
proof (intro conjI impI)
  show a: "anchor (run_ticks (sched_start t0) ws) = t0\<lparr>tv_sec := tv_sec t0 + int (length ws)\<rparr>"
    by (simp add: run_ticks_anchor sched_start_def)
  show n: "ns_of (anchor (run_ticks (sched_start t0) ws)) = ns_of t0 + int (length ws) * 1000000000"
    unfolding a by (rule ns_of_advance)
  show "rows (run_ticks (sched_start t0) ws) = length ws"
    by (simp add: run_ticks_rows sched_start_def)
  show "ns_of (anchor (run_ticks (sched_start t0) ws)) \<le> now (run_ticks (sched_start t0) ws)"
    by (rule run_ticks_blocks) (simp add: sched_start_def)
  show "now (tick s w) = max (now s + int w) (ns_of (anchor (tick s w)))"
    by (simp add: tick_def Let_def clock_nanosleep_abs_def)
  show "now (run_ticks (sched_start t0) ws)
       \<le> ns_of t0 + int (length ws) * 1000000000 + int (\<Sum>w \<leftarrow> ws. w - 1000000000)"
    using run_ticks_lateness [of "sched_start t0" ws] n by (simp add: sched_start_def)
  show "run_sleep_one t ws = t + int (length ws) * 1000000000 + int (sum_list ws)"
    by (rule run_sleep_one_drift)
next
  assume "\<forall>w \<in> set ws. int w \<le> 1000000000"
  then have "now (run_ticks (sched_start t0) ws) = ns_of (anchor (run_ticks (sched_start t0) ws))"
    by (intro run_ticks_no_drift) (simp_all add: sched_start_def)
  moreover have "anchor (run_ticks (sched_start t0) ws)
      = t0\<lparr>tv_sec := tv_sec t0 + int (length ws)\<rparr>"
    by (simp add: run_ticks_anchor sched_start_def)
  ultimately show "now (run_ticks (sched_start t0) ws) = ns_of t0 + int (length ws) * 1000000000"
    by (simp add: ns_of_advance)
next
  assume "0 \<le> interval_sec" "interval_sec \<le> 2147483"
  then show "run_relative interval_sec t ws
          = t + int (length ws) * (interval_sec * 1000000000) + int (sum_list ws)"
    by (rule run_relative_drift)
qed

theorem anchor_advances_by_fixed_intervals_witness:
  "int 300000000 \<le> 1000000000 \<and> int 900000000 \<le> 1000000000
   \<and> anchor (run_ticks (sched_start \<lparr>tv_sec = 100, tv_nsec = 5\<rparr>)
               [300000000, 300000000, 900000000])
       = \<lparr>tv_sec = 103, tv_nsec = 5\<rparr>
   \<and> now (run_ticks (sched_start \<lparr>tv_sec = 100, tv_nsec = 5\<rparr>)
            [300000000, 300000000, 900000000])
       = 103000000005
   \<and> run_relative 1 100000000005 [300000000, 300000000, 900000000] = 104500000005
   \<and> run_sleep_one 100000000005 [300000000, 300000000, 900000000] = 104500000005"
proof -
  let ?t0 = "\<lparr>tv_sec = 100, tv_nsec = 5\<rparr>"
  let ?ws = "[300000000, 300000000, 900000000 :: nat]"
  have h: "\<forall>w \<in> set ?ws. int w \<le> 1000000000" by simp
  have i: "(0::int) \<le> 1" "(1::int) \<le> 2147483" by simp_all
  note t = anchor_advances_by_fixed_intervals [of ?t0 ?ws _ _ 1 100000000005]
  from t have "anchor (run_ticks (sched_start ?t0) ?ws)
      = ?t0\<lparr>tv_sec := tv_sec ?t0 + int (length ?ws)\<rparr>"
    by (rule conjunct1)
  then have a: "anchor (run_ticks (sched_start ?t0) ?ws) = \<lparr>tv_sec = 103, tv_nsec = 5\<rparr>"
    by simp
  from t h have "now (run_ticks (sched_start ?t0) ?ws)
      = ns_of ?t0 + int (length ?ws) * 1000000000"
    by blast
  then have n: "now (run_ticks (sched_start ?t0) ?ws) = 103000000005"
    by (simp add: ns_of_def)
  from t i have "run_relative 1 100000000005 ?ws
      = 100000000005 + int (length ?ws) * (1 * 1000000000) + int (sum_list ?ws)"
    by blast
  then have r: "run_relative 1 100000000005 ?ws = 104500000005" by simp
  from t have "run_sleep_one 100000000005 ?ws
      = 100000000005 + int (length ?ws) * 1000000000 + int (sum_list ?ws)"
    by blast
  then have q: "run_sleep_one 100000000005 ?ws = 104500000005" by simp
  from a n r q show ?thesis by simp
qed

text \<open>
  C9, as the claim has it, fails: with 0.3, 0.3 and 0.9 seconds of work the loops of
  util\_logger.c and log.c are 1.5 seconds late after three iterations; and in logger.c two
  iterations of 1.5 seconds of work each end one second after the anchor.
\<close>

theorem relative_sleep_and_overrun_accumulate:
  "run_relative 1 100000000005 [300000000, 300000000, 900000000] = 104500000005
   \<and> run_sleep_one 100000000005 [300000000, 300000000, 900000000] = 104500000005
   \<and> ns_of (anchor (run_ticks (sched_start \<lparr>tv_sec = 100, tv_nsec = 5\<rparr>)
                      [1500000000, 1500000000])) = 102000000005
   \<and> now (run_ticks (sched_start \<lparr>tv_sec = 100, tv_nsec = 5\<rparr>) [1500000000, 1500000000])
       = 103000000005"
proof -
  have m: "msleep_exact (int_times 1 1000) t = t + 1000000000" for t
    using int_times_small [of 1] msleep_exact_seconds [of 1 t] by simp
  have 1: "run_relative 1 100000000005 [300000000, 300000000, 900000000] = 104500000005"
    by (simp add: m)
  have 2: "run_sleep_one 100000000005 [300000000, 300000000, 900000000] = 104500000005"
    by simp
  have 3: "ns_of (anchor (run_ticks (sched_start \<lparr>tv_sec = 100, tv_nsec = 5\<rparr>)
                      [1500000000, 1500000000])) = 102000000005"
    by (simp add: sched_start_def tick_def Let_def clock_nanosleep_abs_def ns_of_def)
  have 4: "now (run_ticks (sched_start \<lparr>tv_sec = 100, tv_nsec = 5\<rparr>)
      [1500000000, 1500000000]) = 103000000005"
    by (simp add: sched_start_def tick_def Let_def clock_nanosleep_abs_def ns_of_def)
  from 1 2 3 4 show ?thesis by blast
qed

section \<open>The totals of util\_logger.c\<close>

text \<open>
  The total that \<^verbatim>\<open>read_cpu_snapshot\<close> stores for a line with ten fields includes the two
  guest fields, which the total of \<^verbatim>\<open>calculate_core_utilization\<close> leaves out.
\<close>

lemma guest_fields_in_totals:
  "snapshot_line ''cpu0 1 2 3 4 5 6 7 8 9 10\<newline>'' zero_snap
     = Inr (zero_snap\<lparr>total_arr := (total_arr zero_snap)[0 := 55],
                        idle_like := (idle_like zero_snap)[0 := 9],
                        present := (present zero_snap)[0 := True]\<rparr>)
   \<and> total_of (parse_core_line ''cpu0 1 2 3 4 5 6 7 8 9 10\<newline>'') = 36
   \<and> idle_of (parse_core_line ''cpu0 1 2 3 4 5 6 7 8 9 10\<newline>'') = 9"
  by code_simp

end
